theory Spec2Isabelle
  imports Complex_Main "HOL-Library.Multiset"
begin

section \<open>JavaScript values\<close>

text \<open>
  The numbers of JavaScript are IEEE doubles. The model keeps the three non-finite
  values apart and carries a finite number as the exact rational it denotes; the
  rounding of a decimal literal to the nearest double and the negative zero are outside
  the model.
\<close>

datatype jsnum = Fin rat | NaN | PosInf | NegInf

text \<open>
  The values that parsing JSON text yields, and \<open>undefined\<close>. An object is the list of
  its own properties.
\<close>

datatype jsval =
    JUndefined
  | JNull
  | JBool bool
  | JNum jsnum
  | JStr string
  | JArr "jsval list"
  | JObj "(string \<times> jsval) list"

datatype jserr = SyntaxError | TypeError

fun typeof :: "jsval \<Rightarrow> string" where
  "typeof JUndefined = ''undefined''"
| "typeof JNull = ''object''"
| "typeof (JBool b) = ''boolean''"
| "typeof (JNum n) = ''number''"
| "typeof (JStr s) = ''string''"
| "typeof (JArr xs) = ''object''"
| "typeof (JObj ps) = ''object''"

text \<open>
  \<open>Object.is\<close> on primitives is equality, with \<open>NaN\<close> equal to itself. Arrays and
  objects are compared by reference; the sources only compare with a number, where the
  answer for an array or an object is false.
\<close>

definition Object_is :: "jsval \<Rightarrow> jsval \<Rightarrow> bool" where
  "Object_is a b = (case a of JArr _ \<Rightarrow> False | JObj _ \<Rightarrow> False | _ \<Rightarrow> a = b)"

section \<open>A model of JSON.parse and JSON5.parse\<close>

text \<open>
  \<open>JSON.parse\<close> is the engine's and \<open>JSON5.parse\<close> is the \<open>json5\<close> package's; neither is
  among the sources. The model reads the JSON grammar: white space, the six
  punctuators, strings with their escapes, numbers with fraction and exponent, and
  \<open>true\<close>, \<open>false\<close>, \<open>null\<close>. The tolerant reading adds what the metric encodings use of
  JSON5: the literals \<open>NaN\<close> and \<open>Infinity\<close> and an explicit sign. The other
  extensions of JSON5 (comments, single-quoted strings, unquoted keys, trailing commas,
  hexadecimal numbers) are not modelled, so the tolerant reading answers for texts that
  do not use them.

  A string is the list of its bytes in UTF-8: a \<open>\\uXXXX\<close> escape yields the bytes of
  that code unit.
\<close>

definition dquote :: char where
  "dquote = CHR 0x22"

definition backslash :: char where
  "backslash = CHR 0x5C"

definition is_ws :: "char \<Rightarrow> bool" where
  "is_ws c = (c = CHR '' '' \<or> c = CHR 0x09 \<or> c = CHR 0x0A \<or> c = CHR 0x0D)"

definition is_digit :: "char \<Rightarrow> bool" where
  "is_digit c = (48 \<le> (of_char c :: nat) \<and> (of_char c :: nat) \<le> 57)"

definition digit_val :: "char \<Rightarrow> nat" where
  "digit_val c = of_char c - 48"

definition hex_val :: "char \<Rightarrow> nat option" where
  "hex_val c =
     (if is_digit c then Some (of_char c - 48)
      else if 97 \<le> (of_char c :: nat) \<and> (of_char c :: nat) \<le> 102 then Some (of_char c - 87)
      else if 65 \<le> (of_char c :: nat) \<and> (of_char c :: nat) \<le> 70 then Some (of_char c - 55)
      else None)"

fun utf8 :: "nat \<Rightarrow> string" where
  "utf8 n =
     (if n < 128 then [char_of n]
      else if n < 2048 then [char_of (192 + n div 64), char_of (128 + n mod 64)]
      else [char_of (224 + n div 4096), char_of (128 + (n div 64) mod 64), char_of (128 + n mod 64)])"

definition unescape :: "char \<Rightarrow> char option" where
  "unescape e =
     (if e = dquote then Some dquote
      else if e = backslash then Some backslash
      else if e = CHR ''/'' then Some (CHR ''/'')
      else if e = CHR ''b'' then Some (CHR 0x08)
      else if e = CHR ''f'' then Some (CHR 0x0C)
      else if e = CHR ''n'' then Some (CHR 0x0A)
      else if e = CHR ''r'' then Some (CHR 0x0D)
      else if e = CHR ''t'' then Some (CHR 0x09)
      else None)"

text \<open>
  The rest of a string after its opening quote: the characters up to the closing quote,
  decoded, and the text after it. A control character or the end of the text inside a
  string is an error.
\<close>

fun lex_string :: "string \<Rightarrow> (string \<times> string) option" where
  "lex_string [] = None"
| "lex_string (c # cs) =
     (if c = dquote then Some ([], cs)
      else if c = backslash then
        (case cs of
           [] \<Rightarrow> None
         | e # r \<Rightarrow>
             (if e = CHR ''u'' then
                (case r of
                   h1 # h2 # h3 # h4 # r' \<Rightarrow>
                     (case (hex_val h1, hex_val h2, hex_val h3, hex_val h4) of
                        (Some a, Some b, Some c', Some d) \<Rightarrow>
                          map_option (\<lambda>(s, rest). (utf8 (((a * 16 + b) * 16 + c') * 16 + d) @ s, rest))
                            (lex_string r')
                      | _ \<Rightarrow> None)
                 | _ \<Rightarrow> None)
              else (case unescape e of
                      None \<Rightarrow> None
                    | Some ch \<Rightarrow> map_option (\<lambda>(s, rest). (ch # s, rest)) (lex_string r))))
      else if (of_char c :: nat) < 32 then None
      else map_option (\<lambda>(s, rest). (c # s, rest)) (lex_string cs))"

text \<open>
  Numbers: \<open>int frac? exp?\<close> with no leading zero before another digit. The value is
  exact; a magnitude that rounds beyond the largest double (from \<open>2^1024 - 2^970\<close> on)
  is read as an infinity, as the engine does.
\<close>

definition digits_val :: "string \<Rightarrow> nat" where
  "digits_val ds = foldl (\<lambda>a c. a * 10 + digit_val c) 0 ds"

definition lex_fraction :: "string \<Rightarrow> (rat \<times> string) option" where
  "lex_fraction s =
     (case s of
        [] \<Rightarrow> Some (0, [])
      | d # r \<Rightarrow>
          (if d = CHR ''.'' then
             (if takeWhile is_digit r = [] then None
              else Some (of_nat (digits_val (takeWhile is_digit r)) / 10 ^ length (takeWhile is_digit r),
                         dropWhile is_digit r))
           else Some (0, s)))"

definition lex_sign :: "string \<Rightarrow> bool \<times> string" where
  "lex_sign s =
     (case s of
        [] \<Rightarrow> (False, [])
      | x # r \<Rightarrow> if x = CHR ''-'' then (True, r) else if x = CHR ''+'' then (False, r) else (False, s))"

definition lex_exponent :: "string \<Rightarrow> (rat \<times> string) option" where
  "lex_exponent s =
     (case s of
        [] \<Rightarrow> Some (1, [])
      | e # r \<Rightarrow>
          (if e = CHR ''e'' \<or> e = CHR ''E'' then
             (case lex_sign r of
                (neg, r1) \<Rightarrow>
                  (if takeWhile is_digit r1 = [] then None
                   else Some (if neg then 1 / 10 ^ digits_val (takeWhile is_digit r1)
                              else 10 ^ digits_val (takeWhile is_digit r1),
                              dropWhile is_digit r1)))
           else Some (1, s)))"

definition lex_unsigned :: "string \<Rightarrow> (rat \<times> string) option" where
  "lex_unsigned s =
     (if takeWhile is_digit s = [] \<or> (1 < length (takeWhile is_digit s) \<and> hd s = CHR ''0'') then None
      else case lex_fraction (dropWhile is_digit s) of
             None \<Rightarrow> None
           | Some (f, s2) \<Rightarrow>
               (case lex_exponent s2 of
                  None \<Rightarrow> None
                | Some (e, s3) \<Rightarrow> Some ((of_nat (digits_val (takeWhile is_digit s)) + f) * e, s3)))"

definition to_double :: "bool \<Rightarrow> rat \<Rightarrow> jsnum" where
  "to_double neg x =
     (if 2 ^ 1024 - 2 ^ 970 \<le> x then (if neg then NegInf else PosInf)
      else Fin (if neg then - x else x))"

definition strip_prefix :: "string \<Rightarrow> string \<Rightarrow> string option" where
  "strip_prefix p s = (if take (length p) s = p then Some (drop (length p) s) else None)"

definition lex_number :: "string \<Rightarrow> (jsnum \<times> string) option" where
  "lex_number s =
     (case s of
        [] \<Rightarrow> None
      | c # r \<Rightarrow>
          (if c = CHR ''-'' then map_option (\<lambda>(x, rest). (to_double True x, rest)) (lex_unsigned r)
           else map_option (\<lambda>(x, rest). (to_double False x, rest)) (lex_unsigned s)))"

definition lex_number5 :: "string \<Rightarrow> (jsnum \<times> string) option" where
  "lex_number5 s =
     (case lex_sign s of
        (neg, r) \<Rightarrow>
          (case strip_prefix ''Infinity'' r of
             Some rest \<Rightarrow> Some (if neg then NegInf else PosInf, rest)
           | None \<Rightarrow>
               (case strip_prefix ''NaN'' r of
                  Some rest \<Rightarrow> Some (NaN, rest)
                | None \<Rightarrow> map_option (\<lambda>(x, rest). (to_double neg x, rest)) (lex_unsigned r))))"

datatype token =
    TLBrace | TRBrace | TLBrack | TRBrack | TColon | TComma
  | TString string | TNumber jsnum | TTrue | TFalse | TNull

definition lex_token :: "bool \<Rightarrow> string \<Rightarrow> (token \<times> string) option" where
  "lex_token tolerant s =
     (case s of
        [] \<Rightarrow> None
      | c # cs \<Rightarrow>
          (if c = CHR ''{'' then Some (TLBrace, cs)
           else if c = CHR ''}'' then Some (TRBrace, cs)
           else if c = CHR ''['' then Some (TLBrack, cs)
           else if c = CHR '']'' then Some (TRBrack, cs)
           else if c = CHR '':'' then Some (TColon, cs)
           else if c = CHR '','' then Some (TComma, cs)
           else if c = dquote then map_option (\<lambda>(v, rest). (TString v, rest)) (lex_string cs)
           else (case strip_prefix ''true'' s of
                   Some rest \<Rightarrow> Some (TTrue, rest)
                 | None \<Rightarrow>
                     (case strip_prefix ''false'' s of
                        Some rest \<Rightarrow> Some (TFalse, rest)
                      | None \<Rightarrow>
                          (case strip_prefix ''null'' s of
                             Some rest \<Rightarrow> Some (TNull, rest)
                           | None \<Rightarrow>
                               map_option (\<lambda>(n, rest). (TNumber n, rest))
                                 (if tolerant then lex_number5 s else lex_number s))))))"

text \<open>Every token takes at least one character, which is what ends the tokenizer.\<close>

lemma lex_string_shorter: "lex_string s = Some (v, r) \<Longrightarrow> length r < length s"
proof (induction "length s" arbitrary: s v r rule: less_induct)
  case less
  then obtain c cs where s: "s = c # cs" by (cases s) auto
  have IH: "\<And>t v' r'. length t \<le> length cs \<Longrightarrow> lex_string t = Some (v', r') \<Longrightarrow> length r' < length t"
    using less.hyps s by simp
  show ?case
    using less.prems unfolding s
    by (auto split: if_splits list.splits option.splits dest!: IH [rotated])
qed

lemma lex_fraction_shorter: "lex_fraction s = Some (f, r) \<Longrightarrow> length r \<le> length s"
  by (cases s) (auto simp: lex_fraction_def split: if_splits intro: le_SucI length_dropWhile_le)

lemma lex_sign_shorter: "lex_sign s = (b, r) \<Longrightarrow> length r \<le> length s"
  by (cases s) (auto simp: lex_sign_def split: if_splits)

lemma lex_exponent_shorter: "lex_exponent s = Some (e, r) \<Longrightarrow> length r \<le> length s"
proof (cases s)
  case Nil
  assume "lex_exponent s = Some (e, r)"
  with Nil show ?thesis by (simp add: lex_exponent_def)
next
  case (Cons c cs)
  assume a: "lex_exponent s = Some (e, r)"
  obtain b r1 where sg: "lex_sign cs = (b, r1)" by (cases "lex_sign cs")
  have "length r1 \<le> length cs" using lex_sign_shorter [OF sg] .
  moreover have "length (dropWhile is_digit r1) \<le> length r1" by (rule length_dropWhile_le)
  ultimately show ?thesis using a Cons sg
    by (auto simp: lex_exponent_def split: if_splits)
qed

lemma lex_unsigned_shorter: "lex_unsigned s = Some (x, r) \<Longrightarrow> length r < length s"
proof -
  assume a: "lex_unsigned s = Some (x, r)"
  then have ne: "takeWhile is_digit s \<noteq> []" by (auto simp: lex_unsigned_def split: if_splits)
  have "length (takeWhile is_digit s) + length (dropWhile is_digit s) = length s"
    by (metis length_append takeWhile_dropWhile_id)
  with ne have d: "length (dropWhile is_digit s) < length s" by (cases "takeWhile is_digit s") auto
  from a obtain f s2 e where f: "lex_fraction (dropWhile is_digit s) = Some (f, s2)"
    and e: "lex_exponent s2 = Some (e, r)"
    by (auto simp: lex_unsigned_def split: if_splits option.splits)
  from lex_fraction_shorter [OF f] lex_exponent_shorter [OF e] d show ?thesis by simp
qed

lemma strip_prefix_shorter: "strip_prefix p s = Some r \<Longrightarrow> p \<noteq> [] \<Longrightarrow> length r < length s"
  by (cases p; cases s) (auto simp: strip_prefix_def split: if_splits)

lemma lex_number_shorter: "lex_number s = Some (n, r) \<Longrightarrow> length r < length s"
  by (cases s) (auto simp: lex_number_def split: if_splits dest!: lex_unsigned_shorter)

lemma lex_number5_shorter: "lex_number5 s = Some (n, r) \<Longrightarrow> length r < length s"
proof -
  assume a: "lex_number5 s = Some (n, r)"
  obtain b r1 where sg: "lex_sign s = (b, r1)" by (cases "lex_sign s")
  note l = lex_sign_shorter [OF sg]
  from a sg l show ?thesis
    by (auto simp: lex_number5_def split: option.splits
             dest!: lex_unsigned_shorter strip_prefix_shorter)
qed

lemma lex_token_shorter: "lex_token tolerant s = Some (t, r) \<Longrightarrow> length r < length s"
  by (cases s)
     (auto simp: lex_token_def split: if_splits option.splits
           dest!: lex_string_shorter lex_number_shorter lex_number5_shorter strip_prefix_shorter)

function tokenize :: "bool \<Rightarrow> string \<Rightarrow> token list option" where
  "tokenize tolerant [] = Some []"
| "tokenize tolerant (c # cs) =
     (if is_ws c then tokenize tolerant cs
      else case lex_token tolerant (c # cs) of
             None \<Rightarrow> None
           | Some (t, rest) \<Rightarrow> map_option ((#) t) (tokenize tolerant rest))"
  by pat_completeness auto
termination
  by (relation "measure (\<lambda>(tolerant, s). length s)") (auto dest!: lex_token_shorter)

text \<open>
  The grammar of values over the tokens, as a machine that takes one token at a time.
  The stack holds the arrays and objects that are open; a key that has been read waits
  on the stack for its value. A key that occurs again keeps its place and takes the
  later value.
\<close>

datatype frame = FArr "jsval list" | FObj "(string \<times> jsval) list" | FKey string

datatype mode = Value | ArrStart | ObjStart | Key | Colon | After jsval

fun set_property :: "string \<Rightarrow> jsval \<Rightarrow> (string \<times> jsval) list \<Rightarrow> (string \<times> jsval) list" where
  "set_property k v [] = [(k, v)]"
| "set_property k v (p # ps) =
     (if k = fst p then (k, v) # ps else p # set_property k v ps)"

definition start_value :: "frame list \<Rightarrow> token \<Rightarrow> (mode \<times> frame list) option" where
  "start_value st t =
     (case t of
        TString s \<Rightarrow> Some (After (JStr s), st)
      | TNumber n \<Rightarrow> Some (After (JNum n), st)
      | TTrue \<Rightarrow> Some (After (JBool True), st)
      | TFalse \<Rightarrow> Some (After (JBool False), st)
      | TNull \<Rightarrow> Some (After JNull, st)
      | TLBrack \<Rightarrow> Some (ArrStart, FArr [] # st)
      | TLBrace \<Rightarrow> Some (ObjStart, FObj [] # st)
      | _ \<Rightarrow> None)"

definition finish_value :: "jsval \<Rightarrow> frame list \<Rightarrow> token \<Rightarrow> (mode \<times> frame list) option" where
  "finish_value v st t =
     (case st of
        FArr acc # st' \<Rightarrow>
          (if t = TComma then Some (Value, FArr (acc @ [v]) # st')
           else if t = TRBrack then Some (After (JArr (acc @ [v])), st')
           else None)
      | FKey k # FObj acc # st' \<Rightarrow>
          (if t = TComma then Some (Key, FObj (set_property k v acc) # st')
           else if t = TRBrace then Some (After (JObj (set_property k v acc)), st')
           else None)
      | _ \<Rightarrow> None)"

definition step :: "mode \<Rightarrow> frame list \<Rightarrow> token \<Rightarrow> (mode \<times> frame list) option" where
  "step m st t =
     (case m of
        Value \<Rightarrow> start_value st t
      | ArrStart \<Rightarrow>
          (if t = TRBrack then (case st of FArr acc # st' \<Rightarrow> Some (After (JArr acc), st') | _ \<Rightarrow> None)
           else start_value st t)
      | ObjStart \<Rightarrow>
          (if t = TRBrace then (case st of FObj acc # st' \<Rightarrow> Some (After (JObj acc), st') | _ \<Rightarrow> None)
           else (case t of TString k \<Rightarrow> Some (Colon, FKey k # st) | _ \<Rightarrow> None))
      | Key \<Rightarrow> (case t of TString k \<Rightarrow> Some (Colon, FKey k # st) | _ \<Rightarrow> None)
      | Colon \<Rightarrow> (if t = TColon then Some (Value, st) else None)
      | After v \<Rightarrow> finish_value v st t)"

fun run :: "mode \<Rightarrow> frame list \<Rightarrow> token list \<Rightarrow> jsval option" where
  "run m st [] = (case m of After v \<Rightarrow> (if st = [] then Some v else None) | _ \<Rightarrow> None)"
| "run m st (t # ts) = (case step m st t of None \<Rightarrow> None | Some (m', st') \<Rightarrow> run m' st' ts)"

definition parse_text :: "bool \<Rightarrow> string \<Rightarrow> jserr + jsval" where
  "parse_text tolerant text =
     (case tokenize tolerant text of
        None \<Rightarrow> Inl SyntaxError
      | Some ts \<Rightarrow> (case run Value [] ts of None \<Rightarrow> Inl SyntaxError | Some v \<Rightarrow> Inr v))"

text \<open>
  The conversion of a value to a string, as \<open>parse\<close> applies it to an argument that is
  not a string. A finite number is written in plain decimal notation (the exponent
  notation that the engine uses for very large and very small numbers is not
  modelled); an array is its elements joined by commas, with \<open>null\<close> and \<open>undefined\<close>
  empty.
\<close>

definition digit_char :: "nat \<Rightarrow> char" where
  "digit_char d = char_of (48 + d)"

fun nat_text :: "nat \<Rightarrow> string" where
  "nat_text n = (if n < 10 then [digit_char n] else nat_text (n div 10) @ [digit_char (n mod 10)])"

declare nat_text.simps [simp del]

fun frac_text :: "nat \<Rightarrow> rat \<Rightarrow> string" where
  "frac_text 0 x = []"
| "frac_text (Suc k) x =
     (if x = 0 then []
      else digit_char (nat \<lfloor>x * 10\<rfloor>) # frac_text k (x * 10 - of_int \<lfloor>x * 10\<rfloor>))"

definition num_text :: "rat \<Rightarrow> string" where
  "num_text x =
     (if x < 0 then ''-'' else []) @ nat_text (nat \<lfloor>\<bar>x\<bar>\<rfloor>) @
     (if \<bar>x\<bar> = of_int \<lfloor>\<bar>x\<bar>\<rfloor> then [] else ''.'' @ frac_text 1100 (\<bar>x\<bar> - of_int \<lfloor>\<bar>x\<bar>\<rfloor>))"

fun join_comma :: "string list \<Rightarrow> string" where
  "join_comma [] = []"
| "join_comma [s] = s"
| "join_comma (s # t # ss) = s @ '','' @ join_comma (t # ss)"

fun to_string :: "jsval \<Rightarrow> string" where
  "to_string JUndefined = ''undefined''"
| "to_string JNull = ''null''"
| "to_string (JBool b) = (if b then ''true'' else ''false'')"
| "to_string (JNum n) =
     (case n of Fin x \<Rightarrow> num_text x | NaN \<Rightarrow> ''NaN'' | PosInf \<Rightarrow> ''Infinity'' | NegInf \<Rightarrow> ''-Infinity'')"
| "to_string (JStr s) = s"
| "to_string (JArr xs) =
     join_comma (map (\<lambda>v. if v = JNull \<or> v = JUndefined then [] else to_string v) xs)"
| "to_string (JObj ps) = ''[object Object]''"

text \<open>
  The encoding that the claims call the sentinel or double-JSON encoding: the payload
  is the JSON string of a text, that is the text between quotes with each quote and
  each backslash escaped (a text without control characters has no other escapes).
\<close>

definition escape_char :: "char \<Rightarrow> string" where
  "escape_char c = (if c = dquote \<or> c = backslash then [backslash, c] else [c])"

definition json_quote :: "string \<Rightarrow> string" where
  "json_quote t = dquote # concat (map escape_char t) @ [dquote]"

section \<open>The metric functions of the web UI (static/function.ts)\<close>

text \<open>
  \<open>JSON.parse\<close>, \<open>JSON5.parse\<close> and the conversion of a value to a string that both
  apply to an argument that is not a string are the platform's. The functions below
  take them as an environment, so what is proved of \<open>parseMetrics\<close> and \<open>getFinal\<close>
  holds whatever the parsers answer; \<open>model_env\<close> instantiates them with the model
  above.
\<close>

record js_env =
  JSON_parse :: "string \<Rightarrow> jserr + jsval"
  JSON5_parse :: "string \<Rightarrow> jserr + jsval"
  ToString :: "jsval \<Rightarrow> string"

definition model_env :: js_env where
  "model_env = \<lparr>JSON_parse = parse_text False, JSON5_parse = parse_text True, ToString = to_string\<rparr>"

text \<open>\<open>String.prototype.includes\<close>: the text has the pattern as a contiguous part.\<close>

fun includes_str :: "string \<Rightarrow> string \<Rightarrow> bool" where
  "includes_str [] pat = (pat = [])"
| "includes_str (c # cs) pat = (take (length pat) (c # cs) = pat \<or> includes_str cs pat)"

text \<open>
  \<open>parseMetrics\<close>. The run records each call of a parser, with the parser and the
  text it is given, next to the result; a parser that raises ends the run, so the
  outer call of \<open>parse(parse(metricData))\<close> happens only when the inner one returned.
\<close>

datatype parser = JSON | JSON5

definition parse_with :: "js_env \<Rightarrow> parser \<Rightarrow> string \<Rightarrow> jserr + jsval" where
  "parse_with E p text = (case p of JSON \<Rightarrow> JSON_parse E text | JSON5 \<Rightarrow> JSON5_parse E text)"

definition text_of :: "js_env \<Rightarrow> jsval \<Rightarrow> string" where
  "text_of E v = (case v of JStr s \<Rightarrow> s | _ \<Rightarrow> ToString E v)"

definition parse_parse :: "js_env \<Rightarrow> parser \<Rightarrow> string \<Rightarrow> (parser \<times> string) list \<times> (jserr + jsval)" where
  "parse_parse E p text =
     (case parse_with E p text of
        Inl e \<Rightarrow> ([(p, text)], Inl e)
      | Inr v \<Rightarrow> ([(p, text), (p, text_of E v)], parse_with E p (text_of E v)))"

definition parseMetrics_run :: "js_env \<Rightarrow> string \<Rightarrow> (parser \<times> string) list \<times> (jserr + jsval)" where
  "parseMetrics_run E metricData =
     (if includes_str metricData ''NaN'' \<or> includes_str metricData ''Infinity''
      then parse_parse E JSON5 metricData
      else parse_parse E JSON metricData)"

definition parseMetrics :: "js_env \<Rightarrow> string \<Rightarrow> jserr + jsval" where
  "parseMetrics E metricData = snd (parseMetrics_run E metricData)"

definition isArrayType :: "jsval \<Rightarrow> bool" where
  "isArrayType list = (case list of JArr _ \<Rightarrow> True | _ \<Rightarrow> False)"

definition isNaNorInfinity :: "jsval \<Rightarrow> bool" where
  "isNaNorInfinity val = (Object_is val (JNum NaN) \<or> Object_is val (JNum PosInf))"

text \<open>
  \<open>MetricDataRecord\<close> is declared in \<open>static/interface\<close>; the functions read \<open>data\<close>.
\<close>

record MetricDataRecord =
  data :: string

text \<open>
  \<open>obj.hasOwnProperty(key)\<close> on an object holding parsed JSON. The method is looked up
  on the object first: an own property named \<open>hasOwnProperty\<close> shadows the builtin of
  \<open>Object.prototype\<close>, its value is JSON data and not callable, and the call raises a
  \<open>TypeError\<close>. Otherwise the builtin answers whether \<open>key\<close> is an own property.
\<close>

definition call_hasOwnProperty :: "(string \<times> jsval) list \<Rightarrow> string \<Rightarrow> jserr + bool" where
  "call_hasOwnProperty props key =
     (if ''hasOwnProperty'' \<in> set (map fst props) then Inl TypeError
      else Inr (key \<in> set (map fst props)))"

text \<open>
  \<open>getFinal\<close>. An absent \<open>final\<close> is \<open>None\<close>. \<open>final[final.length - 1]\<close> of an empty
  array is \<open>undefined\<close>, and reading its \<open>data\<close> raises a \<open>TypeError\<close>. A value whose
  \<open>typeof\<close> is \<open>object\<close> and that is not an array is a plain object or \<open>null\<close>;
  reading \<open>hasOwnProperty\<close> of \<open>null\<close> raises a \<open>TypeError\<close>. A path that ends without
  \<open>return\<close> yields \<open>undefined\<close>.
\<close>

definition getFinal :: "js_env \<Rightarrow> 'a MetricDataRecord_scheme list option \<Rightarrow> jserr + jsval" where
  "getFinal E final =
     (case final of
        None \<Rightarrow> Inr JUndefined
      | Some recs \<Rightarrow>
          (if recs = [] then Inl TypeError
           else case parseMetrics E (data (last recs)) of
                  Inl e \<Rightarrow> Inl e
                | Inr showDefault \<Rightarrow>
                    (if typeof showDefault = ''number'' then
                       (if \<not> isNaNorInfinity showDefault
                        then Inr (JObj [(''default'', showDefault)])
                        else Inr JUndefined)
                     else if isArrayType showDefault then Inr JUndefined
                     else if typeof showDefault = ''object'' then
                       (case showDefault of
                          JObj props \<Rightarrow>
                            (case call_hasOwnProperty props ''default'' of
                               Inl e \<Rightarrow> Inl e
                             | Inr has \<Rightarrow> if has then Inr showDefault else Inr JUndefined)
                        | _ \<Rightarrow> Inl TypeError)
                     else Inr JUndefined)))"

text \<open>
  \<open>getFinalResult\<close>, the sibling of \<open>getFinal\<close> that reads \<open>acc.default\<close> directly.
  A property that the object does not have reads as \<open>undefined\<close>.
\<close>

definition truthy :: "jsval \<Rightarrow> bool" where
  "truthy v =
     (case v of
        JUndefined \<Rightarrow> False
      | JNull \<Rightarrow> False
      | JBool b \<Rightarrow> b
      | JNum n \<Rightarrow> n \<noteq> NaN \<and> n \<noteq> Fin 0
      | JStr s \<Rightarrow> s \<noteq> []
      | _ \<Rightarrow> True)"

definition get_property :: "(string \<times> jsval) list \<Rightarrow> string \<Rightarrow> jsval" where
  "get_property props key = (case map_of props key of Some v \<Rightarrow> v | None \<Rightarrow> JUndefined)"

definition getFinalResult :: "js_env \<Rightarrow> 'a MetricDataRecord_scheme list option \<Rightarrow> jserr + jsval" where
  "getFinalResult E final =
     (case final of
        None \<Rightarrow> Inr (JNum (Fin 0))
      | Some recs \<Rightarrow>
          (if recs = [] then Inl TypeError
           else case parseMetrics E (data (last recs)) of
                  Inl e \<Rightarrow> Inl e
                | Inr acc \<Rightarrow>
                    (if typeof acc = ''object'' \<and> \<not> isArrayType acc then
                       (case acc of
                          JObj props \<Rightarrow>
                            Inr (if truthy (get_property props ''default'')
                                 then get_property props ''default'' else JNum (Fin 0))
                        | _ \<Rightarrow> Inl TypeError)
                     else if typeof acc = ''number'' then Inr acc
                     else Inr (JNum NaN))))"

section \<open>copyAndSort\<close>

text \<open>
  Arrays live in a store, so that a copy and the array it was copied from are told
  apart: a reference is a number, \<open>fresh\<close> is the next unused one.
\<close>

record 'a store =
  cells :: "nat \<Rightarrow> 'a list option"
  fresh :: nat

definition well_formed :: "'a store \<Rightarrow> bool" where
  "well_formed h = (\<forall>r. fresh h \<le> r \<longrightarrow> cells h r = None)"

text \<open>\<open>items.slice(0)\<close>: a new array with the elements of \<open>items\<close>, in their order.\<close>

definition slice0 :: "nat \<Rightarrow> 'a store \<Rightarrow> (jserr + nat) \<times> 'a store" where
  "slice0 items h =
     (case cells h items of
        None \<Rightarrow> (Inl TypeError, h)
      | Some xs \<Rightarrow> (Inr (fresh h), h\<lparr>cells := (cells h)(fresh h \<mapsto> xs), fresh := Suc (fresh h)\<rparr>))"

text \<open>
  \<open>Array.prototype.sort\<close> with a comparison function sorts the array in place and
  returns the same reference. Which order it leaves is the engine's own: the language
  fixes it only for a comparison function that is consistent, and the one of
  \<open>copyAndSort\<close> is not (it never returns 0, and returns 1 both ways for two elements
  with such keys). The engine's algorithm is therefore a parameter \<open>sortFn\<close> of the
  model, and what is known of it is the relation \<open>engine_sorted\<close> below: the engine
  puts an element before another only on the answer of the comparison function.
\<close>

text \<open>
  \<open>goes_before f a b\<close>: a call of the comparison function on \<open>a\<close> and \<open>b\<close>, in one
  order of the arguments or the other, lets \<open>a\<close> stand before \<open>b\<close>.
\<close>

definition goes_before :: "('a \<Rightarrow> 'a \<Rightarrow> int) \<Rightarrow> 'a \<Rightarrow> 'a \<Rightarrow> bool" where
  "goes_before f a b = (f a b \<le> 0 \<or> 0 \<le> f b a)"

text \<open>
  \<open>merged f xs ys zs\<close>: \<open>zs\<close> is a merge of the runs \<open>xs\<close> and \<open>ys\<close>. A block of one
  run is put out before the head of the other run, or after its last element, on one
  comparison of the two elements that meet. Blocks of one element are the plain merge;
  longer blocks are the galloping of TimSort, and the trimming of the two runs before
  they are merged.
\<close>

inductive merged :: "('a \<Rightarrow> 'a \<Rightarrow> int) \<Rightarrow> 'a list \<Rightarrow> 'a list \<Rightarrow> 'a list \<Rightarrow> bool"
  for f :: "'a \<Rightarrow> 'a \<Rightarrow> int" where
  left_done: "merged f [] ys ys"
| right_done: "merged f xs [] xs"
| front_left: "blk \<noteq> [] \<Longrightarrow> ys \<noteq> [] \<Longrightarrow> goes_before f (last blk) (hd ys) \<Longrightarrow> merged f xs ys zs \<Longrightarrow>
               merged f (blk @ xs) ys (blk @ zs)"
| front_right: "blk \<noteq> [] \<Longrightarrow> xs \<noteq> [] \<Longrightarrow> goes_before f (last blk) (hd xs) \<Longrightarrow> merged f xs ys zs \<Longrightarrow>
                merged f xs (blk @ ys) (blk @ zs)"
| back_left: "blk \<noteq> [] \<Longrightarrow> ys \<noteq> [] \<Longrightarrow> goes_before f (last ys) (hd blk) \<Longrightarrow> merged f xs ys zs \<Longrightarrow>
              merged f (xs @ blk) ys (zs @ blk)"
| back_right: "blk \<noteq> [] \<Longrightarrow> xs \<noteq> [] \<Longrightarrow> goes_before f (last xs) (hd blk) \<Longrightarrow> merged f xs ys zs \<Longrightarrow>
               merged f xs (ys @ blk) (zs @ blk)"

text \<open>
  \<open>inserted f p zs ys\<close>: \<open>ys\<close> is \<open>zs\<close> with \<open>p\<close> put in at a place found by a search,
  binary or linear, which ends between two elements that it has compared with \<open>p\<close>.
\<close>

inductive inserted :: "('a \<Rightarrow> 'a \<Rightarrow> int) \<Rightarrow> 'a \<Rightarrow> 'a list \<Rightarrow> 'a list \<Rightarrow> bool"
  for f :: "'a \<Rightarrow> 'a \<Rightarrow> int" where
  between: "l = [] \<or> goes_before f (last l) p \<Longrightarrow> r = [] \<or> goes_before f p (hd r) \<Longrightarrow>
            inserted f p (l @ r) (l @ p # r)"

text \<open>
  \<open>engine_sorted f xs ys\<close>: \<open>ys\<close> is a result that a sort by comparisons can leave for
  \<open>xs\<close>. A run found in the input stays as it is, or is reversed when it descends; the
  next element is inserted into a sorted part; two sorted neighbouring parts are
  merged; the elements are parted around a pivot that each has been compared with, and
  the two parts sorted. These are the steps of insertion sort, merge sort, TimSort and
  quicksort.
\<close>

inductive engine_sorted :: "('a \<Rightarrow> 'a \<Rightarrow> int) \<Rightarrow> 'a list \<Rightarrow> 'a list \<Rightarrow> bool"
  for f :: "'a \<Rightarrow> 'a \<Rightarrow> int" where
  ascending_run: "successively (goes_before f) xs \<Longrightarrow> engine_sorted f xs xs"
| descending_run: "successively (\<lambda>a b. goes_before f b a) xs \<Longrightarrow> engine_sorted f xs (rev xs)"
| insertion: "engine_sorted f xs zs \<Longrightarrow> inserted f p zs ys \<Longrightarrow> engine_sorted f (xs @ [p]) ys"
| merging: "engine_sorted f xs xs' \<Longrightarrow> engine_sorted f ys ys' \<Longrightarrow> merged f xs' ys' zs \<Longrightarrow>
            engine_sorted f (xs @ ys) zs"
| parting: "engine_sorted f ls ls' \<Longrightarrow> engine_sorted f rs rs' \<Longrightarrow>
            \<forall>a \<in> set ls. goes_before f a p \<Longrightarrow> \<forall>b \<in> set rs. goes_before f p b \<Longrightarrow>
            mset xs = mset ls + add_mset p (mset rs) \<Longrightarrow>
            engine_sorted f xs (ls' @ p # rs')"

text \<open>
  What V8 does with an array of fewer than 64 elements (\<open>ArrayTimSortImpl\<close> with one
  run): \<open>CountAndMakeRun\<close> takes the longest run at the start of the array, descending
  when \<open>f a[1] a[0] < 0\<close> and then reversed in place, and \<open>BinaryInsertionSort\<close>
  inserts each element after the run at the place its binary search finds. Longer
  arrays are cut into such runs, which are then merged.
\<close>

fun extend_run :: "('a \<Rightarrow> 'a \<Rightarrow> bool) \<Rightarrow> 'a \<Rightarrow> 'a list \<Rightarrow> 'a list \<times> 'a list" where
  "extend_run continues previous [] = ([], [])"
| "extend_run continues previous (current # rest) =
     (if continues previous current
      then (case extend_run continues current rest of (grown, rest') \<Rightarrow> (current # grown, rest'))
      else ([], current # rest))"

fun countAndMakeRun :: "('a \<Rightarrow> 'a \<Rightarrow> int) \<Rightarrow> 'a list \<Rightarrow> 'a list \<times> 'a list" where
  "countAndMakeRun f (elementHigh # elementLow # rest) =
     (if f elementLow elementHigh < 0
      then (case extend_run (\<lambda>previous current. f current previous < 0) elementLow rest of
              (grown, rest') \<Rightarrow> (rev (elementHigh # elementLow # grown), rest'))
      else (case extend_run (\<lambda>previous current. \<not> f current previous < 0) elementLow rest of
              (grown, rest') \<Rightarrow> (elementHigh # elementLow # grown, rest')))"
| "countAndMakeRun f [element] = ([element], [])"
| "countAndMakeRun f [] = ([], [])"

function insertion_point :: "('a \<Rightarrow> 'a \<Rightarrow> int) \<Rightarrow> 'a \<Rightarrow> 'a list \<Rightarrow> nat \<Rightarrow> nat \<Rightarrow> nat" where
  "insertion_point f pivot a left right =
     (if left < right
      then (if f pivot (a ! (left + (right - left) div 2)) < 0
            then insertion_point f pivot a left (left + (right - left) div 2)
            else insertion_point f pivot a (left + (right - left) div 2 + 1) right)
      else left)"
  by pat_completeness auto
termination
  by (relation "measure (\<lambda>(f, pivot, a, left, right). right - left)") auto

declare insertion_point.simps [simp del]

definition binaryInsert :: "('a \<Rightarrow> 'a \<Rightarrow> int) \<Rightarrow> 'a list \<Rightarrow> 'a \<Rightarrow> 'a list" where
  "binaryInsert f a pivot =
     take (insertion_point f pivot a 0 (length a)) a @
     pivot # drop (insertion_point f pivot a 0 (length a)) a"

definition binaryInsertionSort :: "('a \<Rightarrow> 'a \<Rightarrow> int) \<Rightarrow> 'a list \<Rightarrow> 'a list \<Rightarrow> 'a list" where
  "binaryInsertionSort f first_run rest = foldl (binaryInsert f) first_run rest"

definition sort_short :: "('a \<Rightarrow> 'a \<Rightarrow> int) \<Rightarrow> 'a list \<Rightarrow> 'a list" where
  "sort_short f xs = (case countAndMakeRun f xs of (first_run, rest) \<Rightarrow> binaryInsertionSort f first_run rest)"

text \<open>
  The top-down merge sort, which takes the next element from the right run when
  \<open>f right left < 0\<close> and from the left run otherwise, is another algorithm of the kind.
\<close>

fun merge :: "('a \<Rightarrow> 'a \<Rightarrow> int) \<Rightarrow> 'a list \<Rightarrow> 'a list \<Rightarrow> 'a list" where
  "merge comparefn [] ys = ys"
| "merge comparefn xs [] = xs"
| "merge comparefn (x # xs) (y # ys) =
     (if comparefn y x < 0 then y # merge comparefn (x # xs) ys
      else x # merge comparefn xs (y # ys))"

fun merge_sort :: "('a \<Rightarrow> 'a \<Rightarrow> int) \<Rightarrow> 'a list \<Rightarrow> 'a list" where
  "merge_sort comparefn xs =
     (if length xs \<le> 1 then xs
      else merge comparefn (merge_sort comparefn (take (length xs div 2) xs))
                           (merge_sort comparefn (drop (length xs div 2) xs)))"

declare merge_sort.simps [simp del]

text \<open>\<open>array.sort(comparefn)\<close> on the store, with the engine's algorithm \<open>sortFn\<close>.\<close>

definition array_sort ::
  "(('a \<Rightarrow> 'a \<Rightarrow> int) \<Rightarrow> 'a list \<Rightarrow> 'a list) \<Rightarrow> ('a \<Rightarrow> 'a \<Rightarrow> int) \<Rightarrow> nat \<Rightarrow> 'a store \<Rightarrow>
   (jserr + nat) \<times> 'a store" where
  "array_sort sortFn comparefn r h =
     (case cells h r of
        None \<Rightarrow> (Inl TypeError, h)
      | Some xs \<Rightarrow> (Inr r, h\<lparr>cells := (cells h)(r \<mapsto> sortFn comparefn xs)\<rparr>))"

text \<open>
  The test that the comparison function applies to \<open>a[key]\<close> and then to \<open>b[key]\<close>.
\<close>

definition placed_last :: "jsval \<Rightarrow> bool" where
  "placed_last v =
     (v = JUndefined \<or> Object_is v (JNum NaN) \<or> Object_is v (JNum PosInf) \<or>
      Object_is v (JNum NegInf) \<or> typeof v = ''object'')"

text \<open>
  The comparison function. Reading a property (\<open>a[key]\<close>) and the operator \<open><\<close> on two
  values are the language's and are parameters; \<open>a > b\<close> is \<open>b < a\<close>. An absent
  \<open>isSortedDescending\<close> is \<open>None\<close> and counts as false.
\<close>

definition compareFunction ::
  "('a \<Rightarrow> string \<Rightarrow> jsval) \<Rightarrow> (jsval \<Rightarrow> jsval \<Rightarrow> bool) \<Rightarrow> string \<Rightarrow> bool option \<Rightarrow> 'a \<Rightarrow> 'a \<Rightarrow> int" where
  "compareFunction prop lt key isSortedDescending a b =
     (if placed_last (prop a key) then 1
      else if placed_last (prop b key) then - 1
      else if (if isSortedDescending = Some True then lt (prop a key) (prop b key)
               else lt (prop b key) (prop a key))
           then 1 else - 1)"

definition copyAndSort ::
  "(('a \<Rightarrow> 'a \<Rightarrow> int) \<Rightarrow> 'a list \<Rightarrow> 'a list) \<Rightarrow> ('a \<Rightarrow> string \<Rightarrow> jsval) \<Rightarrow> (jsval \<Rightarrow> jsval \<Rightarrow> bool) \<Rightarrow>
   nat \<Rightarrow> string \<Rightarrow> bool option \<Rightarrow> 'a store \<Rightarrow> (jserr + nat) \<times> 'a store" where
  "copyAndSort sortFn prop lt items columnKey isSortedDescending h =
     (case slice0 items h of
        (Inl e, h') \<Rightarrow> (Inl e, h')
      | (Inr copy, h') \<Rightarrow>
          array_sort sortFn (compareFunction prop lt columnKey isSortedDescending) copy h')"

section \<open>The REST handler (NNIRestHandler)\<close>

subsection \<open>Errors, responses and effects\<close>

text \<open>
  An \<open>Error\<close> object as \<open>handleError\<close> reads it: whether it is an instance of
  \<open>NNIError\<close>, its \<open>name\<close> and its \<open>message\<close>.
\<close>

record jserror =
  isNNIError :: bool
  name :: string
  message :: string

text \<open>
  \<open>NNIErrorNames.NOT_FOUND\<close> is declared in \<open>common/errors\<close>, which is not among the
  sources; its value is taken as the name itself.
\<close>

definition NOT_FOUND :: string where
  "NOT_FOUND = ''NOT_FOUND''"

text \<open>
  \<open>TrialJobInfo\<close> is declared in \<open>common/datastore\<close>; the handler reads \<open>status\<close> and
  \<open>logPath\<close> and writes \<open>stderrPath\<close>. An optional field is an \<open>option\<close>; every
  other field of the interface lives in the record's extension.
\<close>

record TrialJobInfo =
  status :: string
  logPath :: "string option"
  stderrPath :: "string option"

text \<open>The calls on \<open>this.nniManager\<close> that the handlers below make.\<close>

datatype managerCall =
    StopExperimentTopHalf
  | StopExperimentBottomHalf
  | SetClusterMetadata string string
  | AddCustomizedTrialJob string
  | ListTrialJobs jsval
  | GetTrialJob string

text \<open>What \<open>res.send\<close> is given.\<close>

datatype 'j body =
    NoBody
  | ErrorBody string
  | SequenceIdBody nat
  | JobListBody "'j list"
  | JobBody "'j option"

text \<open>
  A handler is run for its effects: calls on the manager and their settling, the status
  and the body written to the response, the log, and the end of the process. A run is
  the list of its effects in the order they happen.
\<close>

datatype 'j effect =
    Invoke managerCall
  | Resolved managerCall
  | Rejected managerCall jserror
  | ResStatus nat
  | ResSend "'j body"
  | LogError jserror
  | LogErrorText string
  | LogFatal jserror
  | ProcessExit nat
  | RestServerStop

subsection \<open>handleError\<close>

definition handleError :: "jserror \<Rightarrow> bool \<Rightarrow> nat \<Rightarrow> 'j effect list" where
  "handleError err isFatal errorCode =
     [ResStatus (if isNNIError err \<and> name err = NOT_FOUND then 404 else errorCode),
      ResSend (ErrorBody (message err))] @
     (if isFatal then [LogFatal err, ProcessExit 1] else [LogError err])"

text \<open>The defaults of the two optional parameters: \<open>isFatal = false\<close>, \<open>errorCode = 500\<close>.\<close>

definition handleError_default :: "jserror \<Rightarrow> 'j effect list" where
  "handleError_default err = handleError err False 500"

subsection \<open>The routes and what each does when its operation fails\<close>

text \<open>
  One constructor per handler registered in \<open>createRestHandler\<close>, in the order of
  registration. \<open>POST /experiment\<close> reaches \<open>startExperiment\<close> or \<open>resumeExperiment\<close>.
\<close>

datatype route =
    Version
  | CheckStatus
  | GetExperimentProfile
  | GetExperimentMetadata
  | UpdateExperimentProfile
  | ImportData
  | GetImportedData
  | StartExperiment
  | ResumeExperiment
  | GetTrialJobStatistics
  | SetClusterMetaData
  | ListTrialJobsRoute
  | GetTrialJobRoute
  | AddTrialJob
  | CancelTrialJob
  | GetMetricData
  | GetMetricDataByRange
  | GetLatestMetricData
  | GetTrialFile
  | ExportData
  | GetExperimentsInfo
  | StartTensorboardTask
  | GetTensorboardTask
  | UpdateTensorboardTask
  | StopTensorboardTask
  | StopAllTensorboardTask
  | ListTensorboardTask
  | Stop
  | StopOtherExperiment

text \<open>
  The routes whose handler calls an operation of \<open>this.nniManager\<close> (the orchestrator);
  the others call \<open>getVersion\<close>, the experiments manager or the tensorboard manager.
  \<open>CheckStatus\<close> initialises the data store and then reads the manager's status.
\<close>

fun callsManager :: "route \<Rightarrow> bool" where
  "callsManager Version = False"
| "callsManager GetExperimentsInfo = False"
| "callsManager StartTensorboardTask = False"
| "callsManager GetTensorboardTask = False"
| "callsManager UpdateTensorboardTask = False"
| "callsManager StopTensorboardTask = False"
| "callsManager StopAllTensorboardTask = False"
| "callsManager ListTensorboardTask = False"
| "callsManager _ = True"

text \<open>
  The effects on the response, the log and the process that a handler performs once
  its operation has rejected with \<open>err\<close>. \<open>NNIError.FromError\<close> is declared in
  \<open>common/errors\<close> and is a parameter. \<open>Version\<close> and \<open>Stop\<close> install no rejection
  handler. \<open>CheckStatus\<close> logs twice more and stops the REST server after the
  translation.
\<close>

fun onRejected :: "(jserror \<Rightarrow> jserror) \<Rightarrow> route \<Rightarrow> jserror \<Rightarrow> 'j effect list" where
  "onRejected fromError Version err = []"
| "onRejected fromError Stop err = []"
| "onRejected fromError CheckStatus err =
     handleError_default err @
     [LogErrorText (message err),
      LogErrorText ''Datastore initialize failed, stopping rest server...'',
      RestServerStop]"
| "onRejected fromError SetClusterMetaData err = handleError (fromError err) True 500"
| "onRejected fromError StartTensorboardTask err = handleError err False 400"
| "onRejected fromError _ err = handleError_default err"

subsection \<open>DELETE /experiment\<close>

text \<open>
  \<open>stopExperimentTopHalf().then(() => { res.send(); stopExperimentBottomHalf(); })\<close>:
  the callback runs once the promise of the top half has resolved; there is no
  rejection handler, and the promise of the bottom half is not awaited. The operations
  of the manager are parameters that thread the manager's state \<open>'s\<close>.
\<close>

definition stop :: "('s \<Rightarrow> (jserror + unit) \<times> 's) \<Rightarrow> 's \<Rightarrow> 's \<times> 'j effect list" where
  "stop stopExperimentTopHalf s =
     (case stopExperimentTopHalf s of
        (Inr _, s') \<Rightarrow>
          (s', [Invoke StopExperimentTopHalf, Resolved StopExperimentTopHalf,
                ResSend NoBody, Invoke StopExperimentBottomHalf])
      | (Inl err, s') \<Rightarrow>
          (s', [Invoke StopExperimentTopHalf, Rejected StopExperimentTopHalf err] @
               onRejected id Stop err))"

subsection \<open>PUT /experiment/cluster-metadata\<close>

text \<open>
  The loop \<open>for (const key of keys) await setClusterMetadata(key, JSON.stringify(metadata[key]))\<close>
  inside the \<open>try\<close>. The request body is the list of its entries in the order of
  \<open>Object.keys\<close>; \<open>JSON.stringify\<close> is a parameter. The loop stops at the first
  rejection.
\<close>

fun setAllKeys ::
  "(jsval \<Rightarrow> string) \<Rightarrow> (string \<Rightarrow> string \<Rightarrow> 's \<Rightarrow> (jserror + unit) \<times> 's) \<Rightarrow>
   (string \<times> jsval) list \<Rightarrow> 's \<Rightarrow> (jserror + unit) \<times> 's \<times> 'j effect list" where
  "setAllKeys stringify setClusterMetadata [] s = (Inr (), s, [])"
| "setAllKeys stringify setClusterMetadata ((key, v) # rest) s =
     (case setClusterMetadata key (stringify v) s of
        (Inl err, s') \<Rightarrow>
          (Inl err, s',
           [Invoke (SetClusterMetadata key (stringify v)),
            Rejected (SetClusterMetadata key (stringify v)) err])
      | (Inr _, s') \<Rightarrow>
          (case setAllKeys stringify setClusterMetadata rest s' of
             (r, s'', es) \<Rightarrow>
               (r, s'',
                Invoke (SetClusterMetadata key (stringify v)) #
                Resolved (SetClusterMetadata key (stringify v)) # es)))"

definition setClusterMetaData ::
  "(jserror \<Rightarrow> jserror) \<Rightarrow> (jsval \<Rightarrow> string) \<Rightarrow>
   (string \<Rightarrow> string \<Rightarrow> 's \<Rightarrow> (jserror + unit) \<times> 's) \<Rightarrow>
   (string \<times> jsval) list \<Rightarrow> 's \<Rightarrow> 's \<times> 'j effect list" where
  "setClusterMetaData fromError stringify setClusterMetadata metadata s =
     (case setAllKeys stringify setClusterMetadata metadata s of
        (Inr _, s', es) \<Rightarrow> (s', es @ [ResSend NoBody])
      | (Inl err, s', es) \<Rightarrow> (s', es @ onRejected fromError SetClusterMetaData err))"

text \<open>
  The condition of the claim, on the manager alone: the calls of \<open>setClusterMetadata\<close>
  for the keys in order, each on the state the one before left. The result is the
  state after the last call when every call resolves, and \<open>None\<close> when one rejects.
\<close>

fun manager_accepts ::
  "(jsval \<Rightarrow> string) \<Rightarrow> (string \<Rightarrow> string \<Rightarrow> 's \<Rightarrow> (jserror + unit) \<times> 's) \<Rightarrow>
   (string \<times> jsval) list \<Rightarrow> 's \<Rightarrow> 's option" where
  "manager_accepts stringify setClusterMetadata [] s = Some s"
| "manager_accepts stringify setClusterMetadata ((key, v) # rest) s =
     (case setClusterMetadata key (stringify v) s of
        (Inl err, s') \<Rightarrow> None
      | (Inr _, s') \<Rightarrow> manager_accepts stringify setClusterMetadata rest s')"

text \<open>The effects of calls that resolved, one pair for each key.\<close>

definition resolved_calls :: "(jsval \<Rightarrow> string) \<Rightarrow> (string \<times> jsval) list \<Rightarrow> 'j effect list" where
  "resolved_calls stringify entries =
     concat (map (\<lambda>(key, v). [Invoke (SetClusterMetadata key (stringify v)),
                              Resolved (SetClusterMetadata key (stringify v))]) entries)"

subsection \<open>GET /trial-jobs and GET /trial-jobs/:id\<close>

text \<open>
  \<open>path.join\<close> is Node's and is a parameter. \<open>jobInfo === undefined\<close> is \<open>None\<close>.
\<close>

definition setErrorPathForFailedJob ::
  "(string \<Rightarrow> string \<Rightarrow> string) \<Rightarrow> 'a TrialJobInfo_scheme option \<Rightarrow> 'a TrialJobInfo_scheme option" where
  "setErrorPathForFailedJob pathJoin jobInfo =
     (case jobInfo of
        None \<Rightarrow> None
      | Some j \<Rightarrow>
          (if status j \<noteq> ''FAILED'' \<or> logPath j = None then Some j
           else Some (j\<lparr>stderrPath := Some (pathJoin (the (logPath j)) ''stderr'')\<rparr>)))"

text \<open>
  \<open>jobInfos.forEach(trialJob => this.setErrorPathForFailedJob(trialJob))\<close> updates each
  element of the array in place; the elements of a \<open>TrialJobInfo[]\<close> are defined.
\<close>

definition forEachSetErrorPath ::
  "(string \<Rightarrow> string \<Rightarrow> string) \<Rightarrow> 'a TrialJobInfo_scheme list \<Rightarrow> 'a TrialJobInfo_scheme list" where
  "forEachSetErrorPath pathJoin jobInfos =
     map (\<lambda>j. case setErrorPathForFailedJob pathJoin (Some j) of Some j' \<Rightarrow> j' | None \<Rightarrow> j) jobInfos"

definition listTrialJobs ::
  "(string \<Rightarrow> string \<Rightarrow> string) \<Rightarrow>
   (jsval \<Rightarrow> 's \<Rightarrow> (jserror + 'a TrialJobInfo_scheme list) \<times> 's) \<Rightarrow>
   jsval \<Rightarrow> 's \<Rightarrow> 's \<times> 'a TrialJobInfo_scheme effect list" where
  "listTrialJobs pathJoin mgrListTrialJobs queryStatus s =
     (case mgrListTrialJobs queryStatus s of
        (Inr jobInfos, s') \<Rightarrow>
          (s', [Invoke (ListTrialJobs queryStatus), Resolved (ListTrialJobs queryStatus),
                ResSend (JobListBody (forEachSetErrorPath pathJoin jobInfos))])
      | (Inl err, s') \<Rightarrow>
          (s', [Invoke (ListTrialJobs queryStatus), Rejected (ListTrialJobs queryStatus) err] @
               onRejected id ListTrialJobsRoute err))"

definition getTrialJob ::
  "(string \<Rightarrow> string \<Rightarrow> string) \<Rightarrow>
   (string \<Rightarrow> 's \<Rightarrow> (jserror + 'a TrialJobInfo_scheme option) \<times> 's) \<Rightarrow>
   string \<Rightarrow> 's \<Rightarrow> 's \<times> 'a TrialJobInfo_scheme effect list" where
  "getTrialJob pathJoin mgrGetTrialJob ident s =
     (case mgrGetTrialJob ident s of
        (Inr jobDetail, s') \<Rightarrow>
          (s', [Invoke (GetTrialJob ident), Resolved (GetTrialJob ident),
                ResSend (JobBody (setErrorPathForFailedJob pathJoin jobDetail))])
      | (Inl err, s') \<Rightarrow>
          (s', [Invoke (GetTrialJob ident), Rejected (GetTrialJob ident) err] @
               onRejected id GetTrialJobRoute err))"

subsection \<open>POST /trial-jobs\<close>

definition addTrialJob ::
  "(jsval \<Rightarrow> string) \<Rightarrow> (string \<Rightarrow> 's \<Rightarrow> (jserror + nat) \<times> 's) \<Rightarrow>
   jsval \<Rightarrow> 's \<Rightarrow> 's \<times> 'j effect list" where
  "addTrialJob stringify addCustomizedTrialJob reqBody s =
     (case addCustomizedTrialJob (stringify reqBody) s of
        (Inr sequenceId, s') \<Rightarrow>
          (s', [Invoke (AddCustomizedTrialJob (stringify reqBody)),
                Resolved (AddCustomizedTrialJob (stringify reqBody)),
                ResSend (SequenceIdBody sequenceId)])
      | (Inl err, s') \<Rightarrow>
          (s', [Invoke (AddCustomizedTrialJob (stringify reqBody)),
                Rejected (AddCustomizedTrialJob (stringify reqBody)) err] @
               onRejected id AddTrialJob err))"

subsection \<open>The recorded error path, as the claim words it\<close>

text \<open>
  The claim's wording of the update, to compare \<open>setErrorPathForFailedJob\<close> with: a
  job that is \<open>FAILED\<close> and has a \<open>logPath\<close> gets \<open>stderrPath\<close> set to the join of
  \<open>logPath\<close> with \<open>stderr\<close>; any other job is returned as it is.
\<close>

definition claimed_errorPath ::
  "(string \<Rightarrow> string \<Rightarrow> string) \<Rightarrow> 'a TrialJobInfo_scheme \<Rightarrow> 'a TrialJobInfo_scheme" where
  "claimed_errorPath pathJoin j =
     (case logPath j of
        Some p \<Rightarrow> if status j = ''FAILED'' then j\<lparr>stderrPath := Some (pathJoin p ''stderr'')\<rparr> else j
      | None \<Rightarrow> j)"

section \<open>Hyperband bucket generation\<close>

text \<open>
  Modelled from the spec: the Hyperband advisor that generates the buckets is not among
  the sources (only its documentation with the table for \<open>R = 81\<close>, \<open>eta = 3\<close> is).
  The spec gives \<open>s_max = floor(log_eta(R))\<close>, \<open>n_0(s) = ceil((s_max+1)/(s+1) * eta^s)\<close>
  and \<open>r_0(s) = R * eta^(-s)\<close>. The logarithm is the exact one: the largest \<open>s\<close> with
  \<open>eta ^ s \<le> R\<close>, searched upwards.
\<close>

function s_max_from :: "nat \<Rightarrow> nat \<Rightarrow> nat \<Rightarrow> nat" where
  "s_max_from R eta s =
     (if eta \<le> 1 \<or> R < eta ^ (Suc s) then s else s_max_from R eta (Suc s))"
  by pat_completeness auto
termination
proof (relation "measure (\<lambda>(R, eta, s). Suc R - eta ^ (Suc s))")
  show "wf (measure (\<lambda>(R, eta, s). Suc R - eta ^ (Suc s)))" by simp
next
  fix R eta s :: nat
  assume a: "\<not> (eta \<le> 1 \<or> R < eta ^ (Suc s))"
  then have e: "2 \<le> eta" and le: "eta ^ (Suc s) \<le> R" by auto
  have pos: "0 < eta ^ (Suc s)" using e by simp
  have "eta ^ (Suc s) * 2 \<le> eta ^ (Suc s) * eta" using e by (intro mult_le_mono2)
  then have lt: "eta ^ (Suc s) < eta ^ (Suc (Suc s))" using pos by (simp add: mult.commute)
  have "Suc R - eta ^ (Suc (Suc s)) < Suc R - eta ^ (Suc s)"
    by (rule diff_less_mono2 [OF lt]) (use le in linarith)
  then show "((R, eta, Suc s), (R, eta, s)) \<in> measure (\<lambda>(R, eta, s). Suc R - eta ^ (Suc s))"
    by (simp del: power_Suc)
qed

definition s_max :: "nat \<Rightarrow> nat \<Rightarrow> nat" where
  "s_max R eta = s_max_from R eta 0"

definition n_0 :: "nat \<Rightarrow> nat \<Rightarrow> nat \<Rightarrow> int" where
  "n_0 R eta s = \<lceil>(of_nat (s_max R eta + 1) / of_nat (s + 1)) * (of_nat eta :: rat) ^ s\<rceil>"

definition r_0 :: "nat \<Rightarrow> nat \<Rightarrow> nat \<Rightarrow> rat" where
  "r_0 R eta s = of_nat R / (of_nat eta) ^ s"

definition first_rung :: "nat \<Rightarrow> nat \<Rightarrow> nat \<Rightarrow> int \<times> rat" where
  "first_rung R eta s = (n_0 R eta s, r_0 R eta s)"

text \<open>
  Buckets from \<open>s_max\<close> down to \<open>0\<close>, each with its first rung.
\<close>

definition buckets :: "nat \<Rightarrow> nat \<Rightarrow> (nat \<times> int \<times> rat) list" where
  "buckets R eta = map (\<lambda>s. (s, first_rung R eta s)) (rev [0 ..< Suc (s_max R eta)])"

text \<open>
  The row \<open>i = 0\<close> of the table in the Hyperband documentation (\<open>R = 81\<close>, \<open>eta = 3\<close>),
  columns \<open>s = 4\<close> to \<open>s = 0\<close>, each cell \<open>n r\<close>.
\<close>

definition documented_table_row_0 :: "(nat \<times> int \<times> rat) list" where
  "documented_table_row_0 = [(4, 81, 1), (3, 27, 3), (2, 9, 9), (1, 6, 27), (0, 5, 81)]"

section \<open>Properties of the metric functions\<close>

text \<open>The definitions that evaluating the model of the parsers unfolds.\<close>

lemmas model_eval =
  model_env_def parse_text_def lex_token_def dquote_def backslash_def is_ws_def unescape_def
  step_def start_value_def finish_value_def lex_number_def lex_number5_def lex_unsigned_def
  lex_fraction_def lex_exponent_def lex_sign_def strip_prefix_def is_digit_def digits_val_def
  digit_val_def to_double_def parseMetrics_def parseMetrics_run_def parse_parse_def parse_with_def
  text_of_def

lemma take_eq_iff_prefix: "(take (length p) s = p) = (\<exists>b. s = p @ b)"
proof
  assume "take (length p) s = p"
  then have "s = p @ drop (length p) s" by (metis append_take_drop_id)
  then show "\<exists>b. s = p @ b" ..
next
  assume "\<exists>b. s = p @ b"
  then show "take (length p) s = p" by auto
qed

text \<open>\<open>includes_str\<close> is containment of the pattern as a contiguous part.\<close>

lemma includes_str_iff: "includes_str s pat = (\<exists>a b. s = a @ pat @ b)"
proof (induction s)
  case Nil
  then show ?case by auto
next
  case (Cons c cs)
  have "(\<exists>a b. c # cs = a @ pat @ b) = ((\<exists>b. c # cs = pat @ b) \<or> (\<exists>a b. cs = a @ pat @ b))"
  proof
    assume "\<exists>a b. c # cs = a @ pat @ b"
    then obtain a b where ab: "c # cs = a @ pat @ b" by blast
    show "(\<exists>b. c # cs = pat @ b) \<or> (\<exists>a b. cs = a @ pat @ b)"
    proof (cases a)
      case Nil
      with ab show ?thesis by auto
    next
      case (Cons x a')
      with ab have "cs = a' @ pat @ b" by simp
      then show ?thesis by blast
    qed
  next
    assume "(\<exists>b. c # cs = pat @ b) \<or> (\<exists>a b. cs = a @ pat @ b)"
    then show "\<exists>a b. c # cs = a @ pat @ b"
    proof
      assume "\<exists>b. c # cs = pat @ b"
      then obtain b where "c # cs = [] @ pat @ b" by auto
      then show ?thesis by blast
    next
      assume "\<exists>a b. cs = a @ pat @ b"
      then obtain a b where "cs = a @ pat @ b" by blast
      then have "c # cs = (c # a) @ pat @ b" by simp
      then show ?thesis by blast
    qed
  qed
  with Cons show ?case by (simp add: take_eq_iff_prefix del: take_Cons')
qed

text \<open>
  The outer decode of a double encoding gives back the encoded text, so \<open>parseMetrics\<close>
  of the encoding of a text is what the selected parser reads in the text itself.
\<close>

lemma lex_string_plain:
  "c \<noteq> dquote \<Longrightarrow> c \<noteq> backslash \<Longrightarrow> 32 \<le> (of_char c :: nat) \<Longrightarrow>
   lex_string (c # cs) = map_option (\<lambda>(s, rest). (c # s, rest)) (lex_string cs)"
  by simp

lemma lex_string_escaped_quote:
  "lex_string (backslash # dquote # cs) = map_option (\<lambda>(s, rest). (dquote # s, rest)) (lex_string cs)"
  by (simp add: unescape_def dquote_def backslash_def)

lemma lex_string_escaped_backslash:
  "lex_string (backslash # backslash # cs) = map_option (\<lambda>(s, rest). (backslash # s, rest)) (lex_string cs)"
  by (simp add: unescape_def dquote_def backslash_def)

lemma lex_string_closing: "lex_string (dquote # cs) = Some ([], cs)"
  by simp

lemma lex_string_escaped:
  "\<forall>c \<in> set t. 32 \<le> (of_char c :: nat) \<Longrightarrow>
   lex_string (concat (map escape_char t) @ dquote # rest) = Some (t, rest)"
proof (induction t)
  case Nil
  show ?case by (simp only: list.map concat.simps append_Nil lex_string_closing)
next
  case (Cons c t)
  then have IH: "lex_string (concat (map escape_char t) @ dquote # rest) = Some (t, rest)"
    and c: "32 \<le> (of_char c :: nat)" by simp_all
  consider "c = dquote" | "c = backslash" | "c \<noteq> dquote" "c \<noteq> backslash" by blast
  then show ?case
  proof cases
    case 1
    have "concat (map escape_char (c # t)) @ dquote # rest =
            backslash # dquote # (concat (map escape_char t) @ dquote # rest)"
      using 1 by (simp add: escape_char_def del: lex_string.simps)
    then show ?thesis using IH 1 by (simp only: lex_string_escaped_quote) simp
  next
    case 2
    have "concat (map escape_char (c # t)) @ dquote # rest =
            backslash # backslash # (concat (map escape_char t) @ dquote # rest)"
      using 2 by (simp add: escape_char_def del: lex_string.simps)
    then show ?thesis using IH 2 by (simp only: lex_string_escaped_backslash) simp
  next
    case 3
    have "concat (map escape_char (c # t)) @ dquote # rest =
            c # (concat (map escape_char t) @ dquote # rest)"
      using 3 by (simp add: escape_char_def del: lex_string.simps)
    then show ?thesis using IH 3 c by (simp only: lex_string_plain) simp
  qed
qed

lemma parse_text_json_quote:
  assumes "\<forall>c \<in> set t. 32 \<le> (of_char c :: nat)"
  shows "parse_text tolerant (json_quote t) = Inr (JStr t)"
proof -
  have "lex_token tolerant (dquote # concat (map escape_char t) @ [dquote]) = Some (TString t, [])"
    using lex_string_escaped [OF assms, of "[]"] by (simp add: lex_token_def dquote_def)
  then have "tokenize tolerant (json_quote t) = Some [TString t]"
    by (simp add: json_quote_def is_ws_def dquote_def)
  then show ?thesis by (simp add: parse_text_def step_def start_value_def)
qed

lemma parseMetrics_double_encoding:
  assumes "\<forall>c \<in> set t. 32 \<le> (of_char c :: nat)"
  shows "parseMetrics model_env (json_quote t) =
           parse_text (includes_str (json_quote t) ''NaN'' \<or> includes_str (json_quote t) ''Infinity'') t"
  using parse_text_json_quote [OF assms]
  by (simp add: parseMetrics_def parseMetrics_run_def parse_parse_def parse_with_def text_of_def
                model_env_def)

text \<open>
  A non-negative whole number below the overflow of doubles, written in decimal and
  double-encoded, decodes to itself.
\<close>

lemma is_digit_digit_char: "d < 10 \<Longrightarrow> is_digit (digit_char d)"
  by (simp add: is_digit_def digit_char_def)

lemma digit_val_digit_char: "d < 10 \<Longrightarrow> digit_val (digit_char d) = d"
  by (simp add: digit_val_def digit_char_def)

lemma nat_text_digits: "\<forall>c \<in> set (nat_text n). is_digit c"
proof (induction n rule: nat_text.induct)
  case (1 n)
  show ?case
  proof (cases "n < 10")
    case True
    then show ?thesis by (subst nat_text.simps) (simp add: is_digit_digit_char)
  next
    case False
    with 1 show ?thesis by (subst nat_text.simps) (simp add: is_digit_digit_char)
  qed
qed

lemma nat_text_nonempty: "nat_text n \<noteq> []"
  by (subst nat_text.simps) simp

lemma digits_val_snoc: "digits_val (ds @ [c]) = digits_val ds * 10 + digit_val c"
  by (simp add: digits_val_def)

lemma digits_val_nat_text: "digits_val (nat_text n) = n"
proof (induction n rule: nat_text.induct)
  case (1 n)
  show ?case
  proof (cases "n < 10")
    case True
    then show ?thesis by (subst nat_text.simps) (simp add: digits_val_def digit_val_digit_char)
  next
    case False
    with 1 have "digits_val (nat_text (n div 10)) = n div 10" by simp
    then have "digits_val (nat_text (n div 10) @ [digit_char (n mod 10)]) = n div 10 * 10 + n mod 10"
      by (simp add: digits_val_snoc digit_val_digit_char)
    with False show ?thesis by (subst nat_text.simps) simp
  qed
qed

lemma hd_nat_text: "hd (nat_text n) = CHR ''0'' \<Longrightarrow> n = 0"
proof (induction n rule: nat_text.induct)
  case (1 n)
  show ?case
  proof (cases "n < 10")
    case True
    with "1.prems" have "digit_char n = CHR ''0''" by (subst (asm) nat_text.simps) simp
    then have "digit_val (digit_char n) = digit_val (CHR ''0'')" by (rule arg_cong)
    moreover have "digit_val (CHR ''0'') = 0" by (simp add: digit_val_def)
    ultimately show ?thesis using True by (simp only: digit_val_digit_char)
  next
    case False
    from "1.prems" have "hd (nat_text (n div 10)) = CHR ''0''"
      using False nat_text_nonempty [of "n div 10"] by (subst (asm) nat_text.simps) simp
    with "1.IH" False have "n div 10 = 0" by simp
    with False show ?thesis by simp
  qed
qed

lemma length_nat_text: "1 < length (nat_text n) \<Longrightarrow> 10 \<le> n"
  by (subst (asm) nat_text.simps) (simp split: if_splits)

lemma lex_unsigned_nat_text: "lex_unsigned (nat_text n) = Some (of_nat n, [])"
proof -
  have t: "takeWhile is_digit (nat_text n) = nat_text n" using nat_text_digits by simp
  then have d: "dropWhile is_digit (nat_text n) = []"
    by (metis append_self_conv takeWhile_dropWhile_id)
  have "\<not> (1 < length (nat_text n) \<and> hd (nat_text n) = CHR ''0'')"
    using hd_nat_text length_nat_text by fastforce
  then show ?thesis
    by (simp add: lex_unsigned_def t d nat_text_nonempty lex_fraction_def lex_exponent_def
                  digits_val_nat_text)
qed

lemma is_digit_facts:
  "is_digit c \<Longrightarrow> c \<noteq> CHR ''-'' \<and> c \<noteq> CHR ''+'' \<and> c \<noteq> CHR ''{'' \<and> c \<noteq> CHR ''}'' \<and> c \<noteq> CHR ''['' \<and>
     c \<noteq> CHR '']'' \<and> c \<noteq> CHR '':'' \<and> c \<noteq> CHR '','' \<and> c \<noteq> dquote \<and> c \<noteq> CHR ''t'' \<and> c \<noteq> CHR ''f'' \<and>
     c \<noteq> CHR ''n'' \<and> c \<noteq> CHR ''I'' \<and> c \<noteq> CHR ''N'' \<and> \<not> is_ws c \<and> c \<noteq> backslash"
  by (auto simp: is_digit_def dquote_def is_ws_def backslash_def)

lemma lex_token_nat_text:
  "n < 2 ^ 1024 - 2 ^ 970 \<Longrightarrow> lex_token tolerant (nat_text n) = Some (TNumber (Fin (of_nat n)), [])"
proof -
  assume small: "n < 2 ^ 1024 - 2 ^ 970"
  obtain c cs where s: "nat_text n = c # cs" using nat_text_nonempty by (cases "nat_text n") auto
  then have "is_digit c" using nat_text_digits [of n] by simp
  note f = is_digit_facts [OF this]
  have "(of_nat n :: rat) < 2 ^ 1024 - 2 ^ 970"
  proof -
    have "(of_nat n :: rat) < of_nat (2 ^ 1024 - 2 ^ 970)" using small by (simp only: of_nat_less_iff)
    also have "(of_nat (2 ^ 1024 - 2 ^ 970 :: nat) :: rat) = 2 ^ 1024 - 2 ^ 970"
      by (subst of_nat_diff) simp_all
    finally show ?thesis .
  qed
  then have td: "to_double False (of_nat n) = Fin (of_nat n)" by (simp add: to_double_def)
  have u: "lex_unsigned (c # cs) = Some (of_nat n, [])" using lex_unsigned_nat_text [of n] s by simp
  have n5: "lex_number5 (c # cs) = Some (Fin (of_nat n), [])"
    using f u td by (simp add: lex_number5_def lex_sign_def strip_prefix_def)
  have n1: "lex_number (c # cs) = Some (Fin (of_nat n), [])"
    using f u td by (simp add: lex_number_def)
  show ?thesis unfolding s using f n1 n5 by (simp add: lex_token_def strip_prefix_def)
qed

lemma parse_text_nat_text:
  assumes "n < 2 ^ 1024 - 2 ^ 970"
  shows "parse_text tolerant (nat_text n) = Inr (JNum (Fin (of_nat n)))"
proof -
  obtain c cs where s: "nat_text n = c # cs" using nat_text_nonempty by (cases "nat_text n") auto
  then have "is_digit c" using nat_text_digits [of n] by simp
  then have "\<not> is_ws c" using is_digit_facts by blast
  then have "tokenize tolerant (nat_text n) = Some [TNumber (Fin (of_nat n))]"
    using lex_token_nat_text [OF assms, of tolerant] s by simp
  then show ?thesis by (simp add: parse_text_def step_def start_value_def)
qed

lemma json_quote_nat_text:
  "json_quote (nat_text n) = dquote # nat_text n @ [dquote]"
proof -
  have "\<forall>c \<in> set (nat_text n). escape_char c = [c]"
    using nat_text_digits [of n] is_digit_facts by (auto simp: escape_char_def)
  then have "map escape_char (nat_text n) = map (\<lambda>c. [c]) (nat_text n)" by simp
  then have "concat (map escape_char (nat_text n)) = nat_text n"
    by (simp only: concat_map_singleton map_ident list.map_id)
  then show ?thesis by (simp add: json_quote_def)
qed


lemma includes_str_subset: "includes_str s pat \<Longrightarrow> set pat \<subseteq> set s"
  by (auto simp: includes_str_iff)

lemma nat_text_not_tolerant:
  "\<not> (includes_str (json_quote (nat_text n)) ''NaN'' \<or> includes_str (json_quote (nat_text n)) ''Infinity'')"
proof -
  have d: "\<And>c. c \<in> set (nat_text n) \<Longrightarrow> c \<noteq> CHR ''N'' \<and> c \<noteq> CHR ''I''"
    using nat_text_digits [of n] is_digit_facts by blast
  have q: "dquote \<noteq> CHR ''N'' \<and> dquote \<noteq> CHR ''I''" by (simp add: dquote_def)
  have "set (json_quote (nat_text n)) = insert dquote (set (nat_text n))"
    by (simp add: json_quote_nat_text)
  with d q have N: "CHR ''N'' \<notin> set (json_quote (nat_text n))"
    and I: "CHR ''I'' \<notin> set (json_quote (nat_text n))" by auto
  have "\<not> includes_str (json_quote (nat_text n)) ''NaN''"
  proof
    assume "includes_str (json_quote (nat_text n)) ''NaN''"
    then have "set ''NaN'' \<subseteq> set (json_quote (nat_text n))" by (rule includes_str_subset)
    then have "CHR ''N'' \<in> set (json_quote (nat_text n))" by simp
    with N show False by simp
  qed
  moreover have "\<not> includes_str (json_quote (nat_text n)) ''Infinity''"
  proof
    assume "includes_str (json_quote (nat_text n)) ''Infinity''"
    then have "set ''Infinity'' \<subseteq> set (json_quote (nat_text n))" by (rule includes_str_subset)
    then have "CHR ''I'' \<in> set (json_quote (nat_text n))" by simp
    with I show False by simp
  qed
  ultimately show ?thesis by simp
qed

lemma nat_text_printable: "\<forall>c \<in> set (nat_text n). 32 \<le> (of_char c :: nat)"
  using nat_text_digits [of n] by (auto simp: is_digit_def)

lemma parseMetrics_number_round_trip:
  assumes "n < 2 ^ 1024 - 2 ^ 970"
  shows "parseMetrics model_env (json_quote (nat_text n)) = Inr (JNum (Fin (of_nat n)))"
  using parseMetrics_double_encoding [OF nat_text_printable, of n] nat_text_not_tolerant [of n]
        parse_text_nat_text [OF assms, of False]
  by simp

lemma isNaNorInfinity_cases:
  "isNaNorInfinity (JNum NaN)" "isNaNorInfinity (JNum PosInf)" "\<not> isNaNorInfinity (JNum NegInf)"
  "\<not> isNaNorInfinity (JNum (Fin x))"
  by (simp_all add: isNaNorInfinity_def Object_is_def)

text \<open>
  The sentinel encodings, decoded by the model of the parsers: a payload that is the
  JSON string of the text \<open>NaN\<close>, \<open>Infinity\<close>, \<open>-Infinity\<close>, of a number, and of an
  object with the key \<open>default\<close> yields the value the text denotes.
\<close>

lemma sentinel_round_trip:
  "parseMetrics model_env (CHR 0x22 # ''NaN'' @ [CHR 0x22]) = Inr (JNum NaN)"
  "parseMetrics model_env (CHR 0x22 # ''Infinity'' @ [CHR 0x22]) = Inr (JNum PosInf)"
  "parseMetrics model_env (CHR 0x22 # ''-Infinity'' @ [CHR 0x22]) = Inr (JNum NegInf)"
  "parseMetrics model_env (CHR 0x22 # ''0.93'' @ [CHR 0x22]) = Inr (JNum (Fin (93 / 100)))"
  "parseMetrics model_env (CHR 0x22 # ''-12'' @ [CHR 0x22]) = Inr (JNum (Fin (- 12)))"
  "parseMetrics model_env
     (CHR 0x22 # ''{'' @ [CHR 0x5C, CHR 0x22] @ ''default'' @ [CHR 0x5C, CHR 0x22] @ '': 0.93}'' @ [CHR 0x22]) =
     Inr (JObj [(''default'', JNum (Fin (93 / 100)))])"
  "parseMetrics model_env
     (CHR 0x22 # ''{'' @ [CHR 0x5C, CHR 0x22] @ ''default'' @ [CHR 0x5C, CHR 0x22] @ '': NaN}'' @ [CHR 0x22]) =
     Inr (JObj [(''default'', JNum NaN)])"
  by (simp_all add: model_eval)

text \<open>
  What \<open>getFinal\<close> answers for a last record that decodes to an array or to an object,
  whatever the parsers are.
\<close>

lemma getFinal_on_arrays_and_objects:
  fixes recs :: "'a MetricDataRecord_scheme list"
  assumes "recs \<noteq> []"
  shows "parseMetrics E (data (last recs)) = Inr (JArr xs) \<Longrightarrow> getFinal E (Some recs) = Inr JUndefined"
    and "parseMetrics E (data (last recs)) = Inr (JObj props) \<Longrightarrow>
         ''default'' \<notin> fst ` set props \<Longrightarrow> ''hasOwnProperty'' \<notin> fst ` set props \<Longrightarrow>
         getFinal E (Some recs) = Inr JUndefined"
    and "parseMetrics E (data (last recs)) = Inr (JObj props) \<Longrightarrow>
         ''default'' \<in> fst ` set props \<Longrightarrow> ''hasOwnProperty'' \<notin> fst ` set props \<Longrightarrow>
         getFinal E (Some recs) = Inr (JObj props)"
    and "parseMetrics E (data (last recs)) = Inr (JObj props) \<Longrightarrow>
         ''hasOwnProperty'' \<in> fst ` set props \<Longrightarrow>
         getFinal E (Some recs) = Inl TypeError"
  using assms by (simp_all add: getFinal_def isArrayType_def call_hasOwnProperty_def)

lemma getFinal_raises_on_null:
  "getFinal model_env (Some [\<lparr>data = CHR 0x22 # ''null'' @ [CHR 0x22]\<rparr>]) = Inl TypeError"
  by (simp add: model_eval getFinal_def isArrayType_def)

section \<open>Claims about the metric functions\<close>

text \<open>
  C1 (the code departs from the claim). The claim: the sentinel encodings of \<open>NaN\<close>,
  \<open>Infinity\<close>, a number and \<open>{default: x}\<close> decode to the value they encode, and for a
  last record that decodes to an object without a \<open>default\<close> key \<open>getFinal\<close> returns
  \<open>undefined\<close> rather than raising. The first half holds (\<open>sentinel_round_trip\<close>,
  \<open>parseMetrics_double_encoding\<close>, \<open>parseMetrics_number_round_trip\<close>). The
  second fails for the payload \<open>"{\\"hasOwnProperty\\":1}"\<close>: it decodes to an object
  without a \<open>default\<close> key whose own property \<open>hasOwnProperty\<close> shadows the builtin
  that \<open>getFinal\<close> calls on it, and \<open>getFinal\<close> raises a \<open>TypeError\<close>. The sibling
  \<open>getFinalResult\<close>, which reads \<open>acc.default\<close>, returns 0 for the same record.
\<close>

theorem getFinal_raises_on_shadowed_hasOwnProperty:
  "getFinal model_env
     (Some [\<lparr>data = CHR 0x22 # ''{'' @ [CHR 0x5C, CHR 0x22] @ ''hasOwnProperty'' @ [CHR 0x5C, CHR 0x22] @
                    '':1}'' @ [CHR 0x22]\<rparr>]) = Inl TypeError \<and>
   getFinalResult model_env
     (Some [\<lparr>data = CHR 0x22 # ''{'' @ [CHR 0x5C, CHR 0x22] @ ''hasOwnProperty'' @ [CHR 0x5C, CHR 0x22] @
                    '':1}'' @ [CHR 0x22]\<rparr>]) = Inr (JNum (Fin 0))"
  by (simp add: model_eval getFinal_def getFinalResult_def isArrayType_def call_hasOwnProperty_def
                get_property_def truthy_def)

text \<open>
  C2, as stated, does not hold: on a payload that the selected parser rejects there is
  one decode, not two. \<open>JSON.parse('abc')\<close> raises, and the outer call never happens.
\<close>

theorem parseMetrics_decodes_once_on_bad_text:
  "fst (parseMetrics_run model_env ''abc'') = [(JSON, ''abc'')]"
  by (simp add: model_eval)

text \<open>
  C2, amended. For every payload, \<open>parseMetrics\<close> selects the tolerant parser (JSON5) if
  and only if the raw text contains \<open>NaN\<close> or \<open>Infinity\<close>, and the strict parser
  otherwise. It decodes the payload with the selected parser; when that decode returns,
  it decodes the result once more with the same parser, which makes two decodes, and
  the value of the second is the result; when the first decode raises, the error is
  the result and there is no second decode. This holds whatever the parsers answer.
\<close>

theorem parseMetrics_parser_choice:
  "(includes_str metricData ''NaN'' = (\<exists>a b. metricData = a @ ''NaN'' @ b)) \<and>
   (includes_str metricData ''Infinity'' = (\<exists>a b. metricData = a @ ''Infinity'' @ b)) \<and>
   (p = (if includes_str metricData ''NaN'' \<or> includes_str metricData ''Infinity'' then JSON5 else JSON)
    \<longrightarrow>
      (\<forall>v. parse_with E p metricData = Inr v \<longrightarrow>
           parseMetrics_run E metricData =
             ([(p, metricData), (p, text_of E v)], parse_with E p (text_of E v))) \<and>
      (\<forall>e. parse_with E p metricData = Inl e \<longrightarrow>
           parseMetrics_run E metricData = ([(p, metricData)], Inl e)))"
  by (simp add: includes_str_iff parseMetrics_run_def parse_parse_def)

theorem parseMetrics_parser_choice_witness:
  "parseMetrics_run model_env (CHR 0x22 # ''NaN'' @ [CHR 0x22]) =
     ([(JSON5, CHR 0x22 # ''NaN'' @ [CHR 0x22]), (JSON5, ''NaN'')], Inr (JNum NaN)) \<and>
   parseMetrics_run model_env (CHR 0x22 # ''0.5'' @ [CHR 0x22]) =
     ([(JSON, CHR 0x22 # ''0.5'' @ [CHR 0x22]), (JSON, ''0.5'')], Inr (JNum (Fin (1 / 2)))) \<and>
   parseMetrics_run model_env ''abc'' = ([(JSON, ''abc'')], Inl SyntaxError)"
proof -
  have a: "parse_with model_env JSON5 (CHR 0x22 # ''NaN'' @ [CHR 0x22]) = Inr (JStr ''NaN'')"
    and a': "parse_with model_env JSON5 ''NaN'' = Inr (JNum NaN)"
    and b: "parse_with model_env JSON (CHR 0x22 # ''0.5'' @ [CHR 0x22]) = Inr (JStr ''0.5'')"
    and b': "parse_with model_env JSON ''0.5'' = Inr (JNum (Fin (1 / 2)))"
    and c: "parse_with model_env JSON ''abc'' = Inl SyntaxError"
    by (simp_all add: model_eval)
  from parseMetrics_parser_choice [of "CHR 0x22 # ''NaN'' @ [CHR 0x22]" JSON5 model_env]
       parseMetrics_parser_choice [of "CHR 0x22 # ''0.5'' @ [CHR 0x22]" JSON model_env]
       parseMetrics_parser_choice [of "''abc''" JSON model_env]
       a a' b b' c
  show ?thesis by (simp add: text_of_def)
qed

text \<open>
  C9. \<open>isNaNorInfinity\<close> is true for \<open>NaN\<close> and for \<open>+Infinity\<close> and false for
  \<open>-Infinity\<close>. So for a list of final metrics whose last record decodes to \<open>NaN\<close> or
  to \<open>+Infinity\<close>, \<open>getFinal\<close> returns \<open>undefined\<close>, and for one whose last record
  decodes to \<open>-Infinity\<close> it returns \<open>{default: -Infinity}\<close>.
\<close>

theorem getFinal_nonfinite_asymmetry:
  fixes recs :: "'a MetricDataRecord_scheme list"
  shows
  "isNaNorInfinity (JNum NaN) \<and> isNaNorInfinity (JNum PosInf) \<and> \<not> isNaNorInfinity (JNum NegInf) \<and>
   (recs \<noteq> [] \<and> (parseMetrics E (data (last recs)) = Inr (JNum NaN) \<or>
                    parseMetrics E (data (last recs)) = Inr (JNum PosInf))
      \<longrightarrow> getFinal E (Some recs) = Inr JUndefined) \<and>
   (recs \<noteq> [] \<and> parseMetrics E (data (last recs)) = Inr (JNum NegInf)
      \<longrightarrow> getFinal E (Some recs) = Inr (JObj [(''default'', JNum NegInf)]))"
  by (auto simp: getFinal_def isNaNorInfinity_cases)

theorem getFinal_nonfinite_asymmetry_witness:
  "getFinal model_env (Some [\<lparr>data = ''0.5''\<rparr>, \<lparr>data = CHR 0x22 # ''NaN'' @ [CHR 0x22]\<rparr>]) = Inr JUndefined \<and>
   getFinal model_env (Some [\<lparr>data = CHR 0x22 # ''Infinity'' @ [CHR 0x22]\<rparr>]) = Inr JUndefined \<and>
   getFinal model_env (Some [\<lparr>data = CHR 0x22 # ''-Infinity'' @ [CHR 0x22]\<rparr>]) =
     Inr (JObj [(''default'', JNum NegInf)])"
  using getFinal_nonfinite_asymmetry [of "[\<lparr>data = ''0.5''\<rparr>, \<lparr>data = CHR 0x22 # ''NaN'' @ [CHR 0x22]\<rparr>]" model_env]
        getFinal_nonfinite_asymmetry [of "[\<lparr>data = CHR 0x22 # ''Infinity'' @ [CHR 0x22]\<rparr>]" model_env]
        getFinal_nonfinite_asymmetry [of "[\<lparr>data = CHR 0x22 # ''-Infinity'' @ [CHR 0x22]\<rparr>]" model_env]
        sentinel_round_trip(1-3)
  by simp

section \<open>Properties of copyAndSort\<close>

text \<open>
  What a sort by comparisons leaves is ordered by every transitive relation that the
  comparison function decides on the elements at hand, and holds the same elements.
\<close>

lemma sorted_wrt_below_last:
  assumes "sorted_wrt R xs" and "x \<in> set xs"
  shows "x = last xs \<or> R x (last xs)"
  using assms by (induction xs) auto

lemma sorted_wrt_above_hd:
  assumes "sorted_wrt R xs" and "x \<in> set xs"
  shows "x = hd xs \<or> R (hd xs) x"
  using assms by (cases xs) auto

lemma sorted_wrt_bridge:
  assumes tr: "transp R" and l: "sorted_wrt R ls" and r: "sorted_wrt R rs"
    and ne: "ls \<noteq> []" "rs \<noteq> []" and b: "R (last ls) (hd rs)"
  shows "\<forall>a \<in> set ls. \<forall>b \<in> set rs. R a b"
proof (intro ballI)
  fix a b assume a: "a \<in> set ls" and b': "b \<in> set rs"
  from sorted_wrt_below_last [OF l a] b have 1: "R a (hd rs)" using tr by (auto dest: transpD)
  from sorted_wrt_above_hd [OF r b'] 1 show "R a b" using tr by (auto dest: transpD)
qed

lemma merged_mset: "merged f xs ys zs \<Longrightarrow> mset zs = mset xs + mset ys"
  by (induction rule: merged.induct) simp_all

lemma merged_sorted_wrt:
  assumes tr: "transp R"
    and dec: "\<forall>a \<in> S. \<forall>b \<in> S. goes_before f a b \<longrightarrow> R a b"
  shows "merged f xs ys zs \<Longrightarrow> set xs \<union> set ys \<subseteq> S \<Longrightarrow> sorted_wrt R xs \<Longrightarrow> sorted_wrt R ys \<Longrightarrow>
         sorted_wrt R zs"
proof (induction rule: merged.induct)
  case (left_done ys)
  then show ?case by simp
next
  case (right_done xs)
  then show ?case by simp
next
  case (front_left blk ys xs zs)
  have sb: "sorted_wrt R blk" and sx: "sorted_wrt R xs"
    and bx: "\<forall>a \<in> set blk. \<forall>b \<in> set xs. R a b"
    using front_left.prems(2) by (simp_all add: sorted_wrt_append)
  have sz: "sorted_wrt R zs" using front_left.IH front_left.prems sx by simp
  have "last blk \<in> S" "hd ys \<in> S" using front_left.hyps(1,2) front_left.prems(1) by auto
  with dec front_left.hyps(3) have "R (last blk) (hd ys)" by blast
  from sorted_wrt_bridge [OF tr sb front_left.prems(3) front_left.hyps(1,2) this]
  have "\<forall>a \<in> set blk. \<forall>b \<in> set ys. R a b" .
  moreover have "set zs = set xs \<union> set ys"
    using merged_mset [OF front_left.hyps(4)] by (metis set_mset_mset set_mset_union)
  ultimately show ?case using sb sz bx by (auto simp: sorted_wrt_append)
next
  case (front_right blk xs ys zs)
  have sb: "sorted_wrt R blk" and sy: "sorted_wrt R ys"
    and byy: "\<forall>a \<in> set blk. \<forall>b \<in> set ys. R a b"
    using front_right.prems(3) by (simp_all add: sorted_wrt_append)
  have sz: "sorted_wrt R zs" using front_right.IH front_right.prems sy by simp
  have "last blk \<in> S" "hd xs \<in> S" using front_right.hyps(1,2) front_right.prems(1) by auto
  with dec front_right.hyps(3) have "R (last blk) (hd xs)" by blast
  from sorted_wrt_bridge [OF tr sb front_right.prems(2) front_right.hyps(1,2) this]
  have "\<forall>a \<in> set blk. \<forall>b \<in> set xs. R a b" .
  moreover have "set zs = set xs \<union> set ys"
    using merged_mset [OF front_right.hyps(4)] by (metis set_mset_mset set_mset_union)
  ultimately show ?case using sb sz byy by (auto simp: sorted_wrt_append)
next
  case (back_left blk ys xs zs)
  have sb: "sorted_wrt R blk" and sx: "sorted_wrt R xs"
    and xb: "\<forall>a \<in> set xs. \<forall>b \<in> set blk. R a b"
    using back_left.prems(2) by (simp_all add: sorted_wrt_append)
  have sz: "sorted_wrt R zs" using back_left.IH back_left.prems sx by simp
  have "last ys \<in> S" "hd blk \<in> S" using back_left.hyps(1,2) back_left.prems(1) by auto
  with dec back_left.hyps(3) have "R (last ys) (hd blk)" by blast
  from sorted_wrt_bridge [OF tr back_left.prems(3) sb back_left.hyps(2,1) this]
  have "\<forall>a \<in> set ys. \<forall>b \<in> set blk. R a b" .
  moreover have "set zs = set xs \<union> set ys"
    using merged_mset [OF back_left.hyps(4)] by (metis set_mset_mset set_mset_union)
  ultimately show ?case using sb sz xb by (auto simp: sorted_wrt_append)
next
  case (back_right blk xs ys zs)
  have sb: "sorted_wrt R blk" and sy: "sorted_wrt R ys"
    and yb: "\<forall>a \<in> set ys. \<forall>b \<in> set blk. R a b"
    using back_right.prems(3) by (simp_all add: sorted_wrt_append)
  have sz: "sorted_wrt R zs" using back_right.IH back_right.prems sy by simp
  have "last xs \<in> S" "hd blk \<in> S" using back_right.hyps(1,2) back_right.prems(1) by auto
  with dec back_right.hyps(3) have "R (last xs) (hd blk)" by blast
  from sorted_wrt_bridge [OF tr back_right.prems(2) sb back_right.hyps(2,1) this]
  have "\<forall>a \<in> set xs. \<forall>b \<in> set blk. R a b" .
  moreover have "set zs = set xs \<union> set ys"
    using merged_mset [OF back_right.hyps(4)] by (metis set_mset_mset set_mset_union)
  ultimately show ?case using sb sz yb by (auto simp: sorted_wrt_append)
qed

lemma inserted_mset: "inserted f p zs ys \<Longrightarrow> mset ys = add_mset p (mset zs)"
  by (induction rule: inserted.induct) simp_all

lemma inserted_sorted_wrt:
  assumes tr: "transp R"
    and dec: "\<forall>a \<in> S. \<forall>b \<in> S. goes_before f a b \<longrightarrow> R a b"
  shows "inserted f p zs ys \<Longrightarrow> insert p (set zs) \<subseteq> S \<Longrightarrow> sorted_wrt R zs \<Longrightarrow> sorted_wrt R ys"
proof (induction rule: inserted.induct)
  case (between l p r)
  have sl: "sorted_wrt R l" and sr: "sorted_wrt R r" and lr: "\<forall>a \<in> set l. \<forall>b \<in> set r. R a b"
    using between.prems(2) by (simp_all add: sorted_wrt_append)
  have pS: "p \<in> S" and lS: "set l \<subseteq> S" and rS: "set r \<subseteq> S" using between.prems(1) by auto
  have lp: "\<forall>a \<in> set l. R a p"
  proof
    fix a assume a: "a \<in> set l"
    then have ne: "l \<noteq> []" by auto
    then have "last l \<in> S" using lS by auto
    with between.hyps(1) ne pS dec have "R (last l) p" by blast
    with sorted_wrt_below_last [OF sl a] tr show "R a p" by (auto dest: transpD)
  qed
  have pr: "\<forall>b \<in> set r. R p b"
  proof
    fix b assume b: "b \<in> set r"
    then have ne: "r \<noteq> []" by auto
    then have "hd r \<in> S" using rS by auto
    with between.hyps(2) ne pS dec have "R p (hd r)" by blast
    with sorted_wrt_above_hd [OF sr b] tr show "R p b" by (auto dest: transpD)
  qed
  from sl sr lr lp pr show ?case by (auto simp: sorted_wrt_append)
qed

lemma engine_sorted_mset: "engine_sorted f xs ys \<Longrightarrow> mset ys = mset xs"
  by (induction rule: engine_sorted.induct) (simp_all add: merged_mset inserted_mset)

lemma engine_sorted_sorted_wrt:
  assumes tr: "transp R"
    and dec: "\<forall>a \<in> S. \<forall>b \<in> S. goes_before f a b \<longrightarrow> R a b"
  shows "engine_sorted f xs ys \<Longrightarrow> set xs \<subseteq> S \<Longrightarrow> sorted_wrt R ys"
proof (induction rule: engine_sorted.induct)
  case (ascending_run xs)
  have "successively R xs"
  proof (rule successively_mono [OF ascending_run.hyps])
    fix a b assume "a \<in> set xs" "b \<in> set xs" "goes_before f a b"
    with dec ascending_run.prems show "R a b" by blast
  qed
  then show ?case using tr by (simp add: successively_conv_sorted_wrt)
next
  case (descending_run xs)
  have "successively (\<lambda>a b. R b a) xs"
  proof (rule successively_mono [OF descending_run.hyps])
    fix a b assume "a \<in> set xs" "b \<in> set xs" "goes_before f b a"
    with dec descending_run.prems show "R b a" by blast
  qed
  then have "successively R (rev xs)" by simp
  then show ?case using tr by (simp only: successively_conv_sorted_wrt)
next
  case (insertion xs zs p ys)
  have "sorted_wrt R zs" using insertion.IH insertion.prems by simp
  moreover have "set zs = set xs"
    using engine_sorted_mset [OF insertion.hyps(1)] by (rule mset_eq_setD)
  then have "insert p (set zs) \<subseteq> S" using insertion.prems by simp
  ultimately show ?case using inserted_sorted_wrt [OF tr dec insertion.hyps(2)] by simp
next
  case (merging xs xs' ys ys' zs)
  have "sorted_wrt R xs'" "sorted_wrt R ys'" using merging.IH merging.prems by simp_all
  moreover have "set xs' = set xs"
    using engine_sorted_mset [OF merging.hyps(1)] by (rule mset_eq_setD)
  moreover have "set ys' = set ys"
    using engine_sorted_mset [OF merging.hyps(2)] by (rule mset_eq_setD)
  moreover note merging.prems
  ultimately show ?case using merged_sorted_wrt [OF tr dec merging.hyps(3)] by simp
next
  case (parting ls ls' rs rs' p xs)
  have "mset xs = mset (ls @ p # rs)" using parting.hyps(5) by simp
  then have "set xs = set (ls @ p # rs)" by (rule mset_eq_setD)
  then have "set xs = set ls \<union> insert p (set rs)" by simp
  with parting.prems have lS: "set ls \<subseteq> S" and pS: "p \<in> S" and rS: "set rs \<subseteq> S" by auto
  have "set ls' = set ls" using engine_sorted_mset [OF parting.hyps(1)] by (rule mset_eq_setD)
  moreover have "set rs' = set rs"
    using engine_sorted_mset [OF parting.hyps(2)] by (rule mset_eq_setD)
  ultimately have sets: "set ls' = set ls" "set rs' = set rs" by blast+
  have sl: "sorted_wrt R ls'" and sr: "sorted_wrt R rs'"
    using parting.IH lS rS by simp_all
  have lp: "\<forall>a \<in> set ls'. R a p" using parting.hyps(3) dec lS pS sets by blast
  have pr: "\<forall>b \<in> set rs'. R p b" using parting.hyps(4) dec rS pS sets by blast
  have "\<forall>a \<in> set ls'. \<forall>b \<in> set rs'. R a b" using lp pr tr by (blast dest: transpD)
  with sl sr lp pr show ?case by (auto simp: sorted_wrt_append)
qed

text \<open>The short-array sort of V8 is of the kind that \<open>engine_sorted\<close> describes.\<close>

lemma extend_run_successively:
  "extend_run continues previous xs = (grown, rest) \<Longrightarrow>
   xs = grown @ rest \<and> successively continues (previous # grown)"
proof (induction xs arbitrary: previous grown rest)
  case Nil
  then show ?case by simp
next
  case (Cons current xs)
  show ?case
  proof (cases "continues previous current")
    case False
    with Cons.prems show ?thesis by simp
  next
    case True
    obtain g r where rec: "extend_run continues current xs = (g, r)"
      by (cases "extend_run continues current xs")
    with Cons.prems True have "grown = current # g" "rest = r" by simp_all
    with Cons.IH [OF rec] True show ?thesis by simp
  qed
qed

lemma countAndMakeRun_conforms:
  "countAndMakeRun f xs = (first_run, rest) \<Longrightarrow>
   \<exists>taken. xs = taken @ rest \<and> engine_sorted f taken first_run"
proof (induction f xs rule: countAndMakeRun.induct)
  case (1 f elementHigh elementLow more_elements)
  show ?case
  proof (cases "f elementLow elementHigh < 0")
    case True
    obtain g r where rec: "extend_run (\<lambda>previous current. f current previous < 0) elementLow more_elements = (g, r)"
      by (cases "extend_run (\<lambda>previous current. f current previous < 0) elementLow more_elements")
    from extend_run_successively [OF rec] True
    have "successively (\<lambda>a b. f b a < 0) (elementHigh # elementLow # g)" and "more_elements = g @ r"
      by simp_all
    then have "successively (\<lambda>a b. goes_before f b a) (elementHigh # elementLow # g)"
      and "more_elements = g @ r"
      by (auto elim: successively_mono simp: goes_before_def)
    moreover have "first_run = rev (elementHigh # elementLow # g)" and "rest = r"
      using "1.prems" True rec by simp_all
    ultimately have "elementHigh # elementLow # more_elements = (elementHigh # elementLow # g) @ rest \<and>
                     engine_sorted f (elementHigh # elementLow # g) first_run"
      using engine_sorted.descending_run [of f "elementHigh # elementLow # g"] by simp
    then show ?thesis by blast
  next
    case False
    obtain g r where rec: "extend_run (\<lambda>previous current. \<not> f current previous < 0) elementLow more_elements = (g, r)"
      by (cases "extend_run (\<lambda>previous current. \<not> f current previous < 0) elementLow more_elements")
    from extend_run_successively [OF rec] False
    have "successively (\<lambda>a b. \<not> f b a < 0) (elementHigh # elementLow # g)" and "more_elements = g @ r"
      by simp_all
    then have "successively (goes_before f) (elementHigh # elementLow # g)"
      and "more_elements = g @ r"
      by (auto elim: successively_mono simp: goes_before_def)
    moreover have "first_run = elementHigh # elementLow # g" and "rest = r"
      using "1.prems" False rec by simp_all
    ultimately have "elementHigh # elementLow # more_elements = (elementHigh # elementLow # g) @ rest \<and>
                     engine_sorted f (elementHigh # elementLow # g) first_run"
      using engine_sorted.ascending_run [of f "elementHigh # elementLow # g"] by simp
    then show ?thesis by blast
  qed
next
  case (2 f element)
  have "engine_sorted f [element] [element]" by (rule engine_sorted.ascending_run) simp
  with "2.prems" have "[element] = [element] @ rest \<and> engine_sorted f [element] first_run"
    by simp
  then show ?case by blast
next
  case (3 f)
  have "engine_sorted f [] []" by (rule engine_sorted.ascending_run) simp
  with "3.prems" have "[] = [] @ rest \<and> engine_sorted f [] first_run" by simp
  then show ?case by blast
qed

lemma insertion_point_found:
  "left \<le> right \<Longrightarrow> right \<le> length a \<Longrightarrow>
   left = 0 \<or> \<not> f pivot (a ! (left - 1)) < 0 \<Longrightarrow> right = length a \<or> f pivot (a ! right) < 0 \<Longrightarrow>
   insertion_point f pivot a left right \<le> length a \<and>
   (insertion_point f pivot a left right = 0 \<or>
    \<not> f pivot (a ! (insertion_point f pivot a left right - 1)) < 0) \<and>
   (insertion_point f pivot a left right = length a \<or>
    f pivot (a ! insertion_point f pivot a left right) < 0)"
proof (induction f pivot a left right rule: insertion_point.induct)
  case (1 f pivot a left right)
  define mid where "mid = left + (right - left) div 2"
  show ?case
  proof (cases "left < right")
    case False
    with "1.prems" have "left = right" by simp
    moreover have "insertion_point f pivot a left right = left"
      using False by (subst insertion_point.simps) simp
    ultimately show ?thesis using "1.prems" by simp
  next
    case True
    then have mid: "left \<le> mid" "mid < right" by (simp_all add: mid_def)
    show ?thesis
    proof (cases "f pivot (a ! mid) < 0")
      case below: True
      have eq: "insertion_point f pivot a left right = insertion_point f pivot a left mid"
        using True below by (subst insertion_point.simps) (simp add: mid_def)
      have "mid \<le> length a" using mid "1.prems"(2) by simp
      moreover have "mid = length a \<or> f pivot (a ! mid) < 0" using below by simp
      ultimately show ?thesis
        using "1.IH"(1) [OF True below [unfolded mid_def]] mid(1) "1.prems"(3)
        unfolding eq mid_def by simp
    next
      case above: False
      have eq: "insertion_point f pivot a left right = insertion_point f pivot a (mid + 1) right"
        using True above by (subst insertion_point.simps) (simp add: mid_def)
      have "mid + 1 \<le> right" using mid by simp
      moreover have "mid + 1 = 0 \<or> \<not> f pivot (a ! (mid + 1 - 1)) < 0" using above by simp
      ultimately show ?thesis
        using "1.IH"(2) [OF True above [unfolded mid_def]] "1.prems"(2,4)
        unfolding eq mid_def by simp
    qed
  qed
qed

lemma binaryInsert_conforms: "inserted f pivot a (binaryInsert f a pivot)"
proof -
  define k where "k = insertion_point f pivot a 0 (length a)"
  have k: "k \<le> length a \<and> (k = 0 \<or> \<not> f pivot (a ! (k - 1)) < 0) \<and>
           (k = length a \<or> f pivot (a ! k) < 0)"
    unfolding k_def by (rule insertion_point_found) simp_all
  have l: "take k a = [] \<or> goes_before f (last (take k a)) pivot"
  proof (cases "k = 0")
    case True
    then show ?thesis by simp
  next
    case False
    from k have "k \<le> length a" by blast
    with False have "k - 1 < length a" "Suc (k - 1) = k" by arith+
    then have "take k a = take (k - 1) a @ [a ! (k - 1)]"
      using take_Suc_conv_app_nth [of "k - 1" a] by simp
    then have "last (take k a) = a ! (k - 1)" by simp
    with k False show ?thesis by (simp add: goes_before_def)
  qed
  have r: "drop k a = [] \<or> goes_before f pivot (hd (drop k a))"
  proof (cases "k = length a")
    case True
    then show ?thesis by simp
  next
    case False
    with k have "hd (drop k a) = a ! k" by (simp add: hd_drop_conv_nth)
    with k False show ?thesis by (simp add: goes_before_def)
  qed
  from inserted.between [of "take k a" f pivot "drop k a"] l r show ?thesis
    by (simp add: binaryInsert_def k_def)
qed

lemma binaryInsertionSort_conforms:
  "engine_sorted f taken first_run \<Longrightarrow>
   engine_sorted f (taken @ rest) (binaryInsertionSort f first_run rest)"
proof (induction rest arbitrary: taken first_run)
  case Nil
  then show ?case by (simp add: binaryInsertionSort_def)
next
  case (Cons p rest)
  have "engine_sorted f (taken @ [p]) (binaryInsert f first_run p)"
    using Cons.prems binaryInsert_conforms by (rule engine_sorted.insertion)
  from Cons.IH [OF this] show ?case by (simp add: binaryInsertionSort_def)
qed

lemma sort_short_conforms: "engine_sorted f xs (sort_short f xs)"
proof -
  obtain first_run rest where c: "countAndMakeRun f xs = (first_run, rest)"
    by (cases "countAndMakeRun f xs")
  from countAndMakeRun_conforms [OF c] obtain taken where
    "xs = taken @ rest" and "engine_sorted f taken first_run" by blast
  with binaryInsertionSort_conforms [of f taken first_run rest] c show ?thesis
    by (simp add: sort_short_def)
qed

text \<open>So is the top-down merge sort.\<close>

lemma merge_conforms: "merged f xs ys (merge f xs ys)"
proof (induction f xs ys rule: merge.induct)
  case (1 f ys)
  show ?case by (simp add: merged.left_done)
next
  case (2 f v va)
  show ?case by (simp add: merged.right_done)
next
  case (3 f x xs y ys)
  show ?case
  proof (cases "f y x < 0")
    case True
    with "3.IH"(1) have "merged f (x # xs) ([y] @ ys) ([y] @ merge f (x # xs) ys)"
      by (intro merged.front_right) (simp_all add: goes_before_def)
    with True show ?thesis by simp
  next
    case False
    with "3.IH"(2) have "merged f ([x] @ xs) (y # ys) ([x] @ merge f xs (y # ys))"
      by (intro merged.front_left) (simp_all add: goes_before_def)
    with False show ?thesis by simp
  qed
qed

lemma merge_sort_conforms: "engine_sorted f xs (merge_sort f xs)"
proof (induction "length xs" arbitrary: xs rule: less_induct)
  case less
  show ?case
  proof (cases "length xs \<le> 1")
    case True
    then have "merge_sort f xs = xs" by (subst merge_sort.simps) simp
    moreover have "successively (goes_before f) xs"
      using True by (cases xs) (auto simp: successively_Cons)
    ultimately show ?thesis by (simp add: engine_sorted.ascending_run)
  next
    case False
    let ?l = "take (length xs div 2) xs" and ?r = "drop (length xs div 2) xs"
    have "length ?l < length xs" "length ?r < length xs" using False by auto
    then have "engine_sorted f ?l (merge_sort f ?l)" "engine_sorted f ?r (merge_sort f ?r)"
      using less.hyps by blast+
    then have "engine_sorted f (?l @ ?r) (merge f (merge_sort f ?l) (merge_sort f ?r))"
      using merge_conforms by (rule engine_sorted.merging)
    then show ?thesis using False by (subst merge_sort.simps) simp
  qed
qed

text \<open>
  On elements whose ordinary keys \<open><\<close> orders strictly and weakly, the comparison
  function decides a total preorder: the ordinary keys in the order asked for, then
  the keys that are placed last.
\<close>

lemma compareFunction_order:
  assumes asym: "\<forall>a \<in> K. \<forall>b \<in> K. lt a b \<longrightarrow> \<not> lt b a"
    and negtrans: "\<forall>a \<in> K. \<forall>b \<in> K. \<forall>c \<in> K. lt a c \<longrightarrow> lt a b \<or> lt b c"
    and K: "K = (\<lambda>e. (rd :: 'a \<Rightarrow> string \<Rightarrow> jsval) e key) ` {e \<in> set xs. \<not> placed_last (rd e key)}"
    and le: "le = (\<lambda>a b. placed_last (rd b key) \<or>
                     (\<not> placed_last (rd a key) \<and>
                      \<not> (if d = Some True then lt (rd a key) (rd b key)
                          else lt (rd b key) (rd a key))))"
  shows "\<forall>a \<in> set xs. \<forall>b \<in> set xs.
           (compareFunction rd lt key d a b < 0 \<longrightarrow> le a b) \<and>
           (\<not> compareFunction rd lt key d a b < 0 \<longrightarrow> le b a)"
    and "\<forall>a \<in> set xs. \<forall>b \<in> set xs. \<forall>c \<in> set xs. le a b \<and> le b c \<longrightarrow> le a c"
proof -
  have inK: "\<And>e. e \<in> set xs \<Longrightarrow> \<not> placed_last (rd e key) \<Longrightarrow> rd e key \<in> K"
    unfolding K by blast
  show "\<forall>a \<in> set xs. \<forall>b \<in> set xs.
           (compareFunction rd lt key d a b < 0 \<longrightarrow> le a b) \<and>
           (\<not> compareFunction rd lt key d a b < 0 \<longrightarrow> le b a)"
  proof (intro ballI)
    fix a b assume a: "a \<in> set xs" and b: "b \<in> set xs"
    show "(compareFunction rd lt key d a b < 0 \<longrightarrow> le a b) \<and>
          (\<not> compareFunction rd lt key d a b < 0 \<longrightarrow> le b a)"
    proof (cases "placed_last (rd a key) \<or> placed_last (rd b key)")
      case True
      then show ?thesis unfolding le by (auto simp: compareFunction_def)
    next
      case False
      then have "rd a key \<in> K" "rd b key \<in> K" using inK a b by auto
      with asym have "lt (rd a key) (rd b key) \<longrightarrow> \<not> lt (rd b key) (rd a key)" by blast
      with False show ?thesis unfolding le by (auto simp: compareFunction_def)
    qed
  qed
  show "\<forall>a \<in> set xs. \<forall>b \<in> set xs. \<forall>c \<in> set xs. le a b \<and> le b c \<longrightarrow> le a c"
  proof (intro ballI impI)
    fix a b c assume a: "a \<in> set xs" and b: "b \<in> set xs" and c: "c \<in> set xs"
      and h: "le a b \<and> le b c"
    show "le a c"
    proof (cases "placed_last (rd c key)")
      case True
      then show ?thesis unfolding le by simp
    next
      case False
      with h have gb: "\<not> placed_last (rd b key)" unfolding le by auto
      with h have ga: "\<not> placed_last (rd a key)" unfolding le by auto
      from ga gb False have k: "rd a key \<in> K" "rd b key \<in> K" "rd c key \<in> K"
        using inK a b c by auto
      from negtrans k have
        n1: "lt (rd a key) (rd c key) \<longrightarrow> lt (rd a key) (rd b key) \<or> lt (rd b key) (rd c key)"
        and n2: "lt (rd c key) (rd a key) \<longrightarrow> lt (rd c key) (rd b key) \<or> lt (rd b key) (rd a key)"
        by blast+
      from h ga gb False n1 n2 show ?thesis unfolding le by (auto split: if_splits)
    qed
  qed
qed

section \<open>Claims about copyAndSort\<close>

text \<open>
  C10. \<open>copyAndSort\<close> does not change its input: it returns a reference to a newly
  allocated array, the array \<open>items\<close> holds the same elements in the same order after
  the call, and no other array changes. The new array holds the elements of \<open>items\<close>,
  and in it every element whose sort key is \<open>undefined\<close>, \<open>NaN\<close>, \<open>+Infinity\<close>,
  \<open>-Infinity\<close> or an object stands after every element with any other key. Where \<open><\<close>
  is a strict weak order on the other keys that occur, those elements are in order:
  ascending, or descending when \<open>isSortedDescending\<close> is true. The sort is any
  \<open>sortFn\<close> whose result for this comparison function and these elements is one that
  \<open>engine_sorted\<close> allows; nothing more is assumed of the engine, and neither the
  allocation nor the frame depends on it.
\<close>

theorem copyAndSort_copies_and_places_last:
  assumes wf: "well_formed h" and items: "cells h items = Some xs"
    and engine: "engine_sorted (compareFunction prop lt columnKey isSortedDescending) xs
                   (sortFn (compareFunction prop lt columnKey isSortedDescending) xs)"
  shows "\<exists>copy ys h'.
           copyAndSort sortFn prop lt items columnKey isSortedDescending h = (Inr copy, h') \<and>
           cells h copy = None \<and> copy \<noteq> items \<and>
           cells h' items = Some xs \<and>
           (\<forall>r. r \<noteq> copy \<longrightarrow> cells h' r = cells h r) \<and>
           cells h' copy = Some ys \<and> mset ys = mset xs \<and>
           (\<forall>i j. i < length ys \<and> j < length ys \<and>
                  placed_last (prop (ys ! i) columnKey) \<and> \<not> placed_last (prop (ys ! j) columnKey)
                  \<longrightarrow> j < i) \<and>
           ((\<forall>a \<in> (\<lambda>e. prop e columnKey) ` {e \<in> set xs. \<not> placed_last (prop e columnKey)}.
             \<forall>b \<in> (\<lambda>e. prop e columnKey) ` {e \<in> set xs. \<not> placed_last (prop e columnKey)}.
               (lt a b \<longrightarrow> \<not> lt b a) \<and>
               (\<forall>c \<in> (\<lambda>e. prop e columnKey) ` {e \<in> set xs. \<not> placed_last (prop e columnKey)}.
                  lt a c \<longrightarrow> lt a b \<or> lt b c))
            \<longrightarrow>
            (\<forall>i j. i < j \<and> j < length ys \<and>
                   \<not> placed_last (prop (ys ! i) columnKey) \<and> \<not> placed_last (prop (ys ! j) columnKey)
                   \<longrightarrow> (if isSortedDescending = Some True
                        then \<not> lt (prop (ys ! i) columnKey) (prop (ys ! j) columnKey)
                        else \<not> lt (prop (ys ! j) columnKey) (prop (ys ! i) columnKey))))"
proof -
  define f where "f = compareFunction prop lt columnKey isSortedDescending"
  define ys where "ys = sortFn f xs"
  define h' where "h' = h\<lparr>cells := ((cells h)(fresh h \<mapsto> xs))(fresh h \<mapsto> ys), fresh := Suc (fresh h)\<rparr>"
  define K where "K = (\<lambda>e. prop e columnKey) ` {e \<in> set xs. \<not> placed_last (prop e columnKey)}"
  define le where "le = (\<lambda>a b. placed_last (prop b columnKey) \<or>
                     (\<not> placed_last (prop a columnKey) \<and>
                      \<not> (if isSortedDescending = Some True then lt (prop a columnKey) (prop b columnKey)
                          else lt (prop b columnKey) (prop a columnKey))))"
  have conf: "engine_sorted f xs ys" using engine by (simp add: f_def ys_def)
  have free: "cells h (fresh h) = None" using wf by (simp add: well_formed_def)
  with items have ne: "fresh h \<noteq> items" by auto
  have run: "copyAndSort sortFn prop lt items columnKey isSortedDescending h = (Inr (fresh h), h')"
    using items by (simp add: copyAndSort_def slice0_def array_sort_def f_def ys_def h'_def)
  have "transp (\<lambda>a b. placed_last (prop a columnKey) \<longrightarrow> placed_last (prop b columnKey))"
    by (rule transpI) blast
  moreover have "\<forall>a \<in> UNIV. \<forall>b \<in> UNIV.
      goes_before f a b \<longrightarrow> (placed_last (prop a columnKey) \<longrightarrow> placed_last (prop b columnKey))"
    by (simp add: f_def goes_before_def compareFunction_def)
  ultimately have placed:
    "sorted_wrt (\<lambda>a b. placed_last (prop a columnKey) \<longrightarrow> placed_last (prop b columnKey)) ys"
    using conf by (rule engine_sorted_sorted_wrt) simp
  have order: "\<forall>i j. i < length ys \<and> j < length ys \<and>
                 placed_last (prop (ys ! i) columnKey) \<and> \<not> placed_last (prop (ys ! j) columnKey)
                 \<longrightarrow> j < i"
  proof (intro allI impI)
    fix i j
    assume a: "i < length ys \<and> j < length ys \<and>
               placed_last (prop (ys ! i) columnKey) \<and> \<not> placed_last (prop (ys ! j) columnKey)"
    show "j < i"
    proof (rule ccontr)
      assume "\<not> j < i"
      with a have "i < j" by (cases "i = j") auto
      with placed a have "placed_last (prop (ys ! j) columnKey)"
        by (auto simp: sorted_wrt_iff_nth_less)
      with a show False by simp
    qed
  qed
  have sorted: "(\<forall>a \<in> K. \<forall>b \<in> K. (lt a b \<longrightarrow> \<not> lt b a) \<and> (\<forall>c \<in> K. lt a c \<longrightarrow> lt a b \<or> lt b c))
            \<longrightarrow>
            (\<forall>i j. i < j \<and> j < length ys \<and>
                   \<not> placed_last (prop (ys ! i) columnKey) \<and> \<not> placed_last (prop (ys ! j) columnKey)
                   \<longrightarrow> (if isSortedDescending = Some True
                        then \<not> lt (prop (ys ! i) columnKey) (prop (ys ! j) columnKey)
                        else \<not> lt (prop (ys ! j) columnKey) (prop (ys ! i) columnKey)))"
  proof (intro impI allI)
    fix i j
    assume swo: "\<forall>a \<in> K. \<forall>b \<in> K. (lt a b \<longrightarrow> \<not> lt b a) \<and> (\<forall>c \<in> K. lt a c \<longrightarrow> lt a b \<or> lt b c)"
      and ij: "i < j \<and> j < length ys \<and>
               \<not> placed_last (prop (ys ! i) columnKey) \<and> \<not> placed_last (prop (ys ! j) columnKey)"
    from swo have asym: "\<forall>a \<in> K. \<forall>b \<in> K. lt a b \<longrightarrow> \<not> lt b a"
      and negtrans: "\<forall>a \<in> K. \<forall>b \<in> K. \<forall>c \<in> K. lt a c \<longrightarrow> lt a b \<or> lt b c" by blast+
    note decided = compareFunction_order(1)
                     [where rd = "prop" and key = columnKey and d = isSortedDescending and xs = xs,
                      OF asym negtrans K_def le_def]
    note trans = compareFunction_order(2)
                     [where rd = "prop" and key = columnKey and d = isSortedDescending and xs = xs,
                      OF asym negtrans K_def le_def]
    have tr: "transp (\<lambda>a b. a \<in> set xs \<and> b \<in> set xs \<and> le a b)"
    proof (rule transpI)
      fix a b c
      assume "a \<in> set xs \<and> b \<in> set xs \<and> le a b" and "b \<in> set xs \<and> c \<in> set xs \<and> le b c"
      with trans show "a \<in> set xs \<and> c \<in> set xs \<and> le a c" by blast
    qed
    have dec: "\<forall>a \<in> set xs. \<forall>b \<in> set xs.
                 goes_before f a b \<longrightarrow> a \<in> set xs \<and> b \<in> set xs \<and> le a b"
    proof (intro ballI impI)
      fix a b assume a: "a \<in> set xs" and b: "b \<in> set xs" and g: "goes_before f a b"
      have "f a b \<noteq> 0" by (simp add: f_def compareFunction_def)
      with g have "f a b < 0 \<or> \<not> f b a < 0" by (auto simp: goes_before_def)
      with decided a b show "a \<in> set xs \<and> b \<in> set xs \<and> le a b"
        unfolding f_def by blast
    qed
    have "sorted_wrt (\<lambda>a b. a \<in> set xs \<and> b \<in> set xs \<and> le a b) ys"
      using tr dec conf by (rule engine_sorted_sorted_wrt) simp
    then have "le (ys ! i) (ys ! j)" using ij by (simp add: sorted_wrt_iff_nth_less)
    with ij show "if isSortedDescending = Some True
                  then \<not> lt (prop (ys ! i) columnKey) (prop (ys ! j) columnKey)
                  else \<not> lt (prop (ys ! j) columnKey) (prop (ys ! i) columnKey)"
      by (auto simp: le_def split: if_splits)
  qed
  have "cells h' items = Some xs" using ne items by (simp add: h'_def)
  moreover have "\<forall>r. r \<noteq> fresh h \<longrightarrow> cells h' r = cells h r" by (simp add: h'_def)
  moreover have "cells h' (fresh h) = Some ys" by (simp add: h'_def)
  moreover have "mset ys = mset xs" using conf by (rule engine_sorted_mset)
  ultimately show ?thesis using run free ne order sorted unfolding K_def by blast
qed

theorem copyAndSort_copies_and_places_last_witness:
  "well_formed \<lparr>cells = (\<lambda>r. if r = 0 then Some [[(''k'', JStr ''10'')], [(''k'', JNum (Fin 1))],
                                                  [(''k'', JStr ''a'')], [(''k'', JNum NaN)],
                                                  [(''j'', JNull)], [(''k'', JNum (Fin 2))]]
                                else None), fresh = 1\<rparr> \<and>
   fst (copyAndSort sort_short get_property
          (\<lambda>a b. (a, b) \<in> {(JNum (Fin 1), JStr ''10''), (JStr ''10'', JStr ''a''),
                            (JNum (Fin 1), JNum (Fin 2)), (JNum (Fin 2), JStr ''10'')})
          0 ''k'' None
          \<lparr>cells = (\<lambda>r. if r = 0 then Some [[(''k'', JStr ''10'')], [(''k'', JNum (Fin 1))],
                                            [(''k'', JStr ''a'')], [(''k'', JNum NaN)],
                                            [(''j'', JNull)], [(''k'', JNum (Fin 2))]]
                          else None), fresh = 1\<rparr>) = Inr 1 \<and>
   cells (snd (copyAndSort sort_short get_property
          (\<lambda>a b. (a, b) \<in> {(JNum (Fin 1), JStr ''10''), (JStr ''10'', JStr ''a''),
                            (JNum (Fin 1), JNum (Fin 2)), (JNum (Fin 2), JStr ''10'')})
          0 ''k'' None
          \<lparr>cells = (\<lambda>r. if r = 0 then Some [[(''k'', JStr ''10'')], [(''k'', JNum (Fin 1))],
                                            [(''k'', JStr ''a'')], [(''k'', JNum NaN)],
                                            [(''j'', JNull)], [(''k'', JNum (Fin 2))]]
                          else None), fresh = 1\<rparr>)) 0 =
     Some [[(''k'', JStr ''10'')], [(''k'', JNum (Fin 1))], [(''k'', JStr ''a'')],
           [(''k'', JNum NaN)], [(''j'', JNull)], [(''k'', JNum (Fin 2))]] \<and>
   cells (snd (copyAndSort sort_short get_property
          (\<lambda>a b. (a, b) \<in> {(JNum (Fin 1), JStr ''10''), (JStr ''10'', JStr ''a''),
                            (JNum (Fin 1), JNum (Fin 2)), (JNum (Fin 2), JStr ''10'')})
          0 ''k'' None
          \<lparr>cells = (\<lambda>r. if r = 0 then Some [[(''k'', JStr ''10'')], [(''k'', JNum (Fin 1))],
                                            [(''k'', JStr ''a'')], [(''k'', JNum NaN)],
                                            [(''j'', JNull)], [(''k'', JNum (Fin 2))]]
                          else None), fresh = 1\<rparr>)) 1 =
     Some [[(''k'', JStr ''a'')], [(''k'', JNum (Fin 1))], [(''k'', JNum (Fin 2))],
           [(''k'', JStr ''10'')], [(''k'', JNum NaN)], [(''j'', JNull)]]"
  (is "well_formed ?h \<and> fst ?run = Inr 1 \<and> cells (snd ?run) 0 = Some ?xs \<and> cells (snd ?run) 1 = Some ?ys")
proof -
  have wf: "well_formed ?h" by (simp add: well_formed_def)
  have items: "cells ?h 0 = Some ?xs" by simp
  from copyAndSort_copies_and_places_last
         [of ?h 0 ?xs get_property
            "\<lambda>a b. (a, b) \<in> {(JNum (Fin 1), JStr ''10''), (JStr ''10'', JStr ''a''),
                              (JNum (Fin 1), JNum (Fin 2)), (JNum (Fin 2), JStr ''10'')}"
            "''k''" None sort_short, OF wf items sort_short_conforms]
  obtain copy zs h' where run: "?run = (Inr copy, h')" and kept: "cells h' 0 = Some ?xs"
    by blast
  have unchanged: "cells (snd ?run) 0 = Some ?xs" using run kept by simp
  have "fst ?run = Inr 1 \<and> cells (snd ?run) 1 = Some ?ys"
    by (simp add: copyAndSort_def slice0_def array_sort_def sort_short_def binaryInsertionSort_def
                  binaryInsert_def insertion_point.simps compareFunction_def
                  get_property_def placed_last_def Object_is_def)
  with wf unchanged show ?thesis by simp
qed

section \<open>Properties of the REST handler\<close>

lemma handleError_default_effects:
  "(handleError_default err :: 'j effect list) =
     [ResStatus (if isNNIError err \<and> name err = NOT_FOUND then 404 else 500),
      ResSend (ErrorBody (message err)), LogError err]"
  by (simp add: handleError_default_def handleError_def)

lemma onRejected_manager_routes:
  assumes "callsManager r" and "r \<noteq> Stop" and "r \<noteq> SetClusterMetaData"
  shows "take 3 (onRejected fromError r err :: 'j effect list) =
     [ResStatus (if isNNIError err \<and> name err = NOT_FOUND then 404 else 500),
      ResSend (ErrorBody (message err)), LogError err]"
  using assms by (cases r) (simp_all add: handleError_default_effects)


lemma setErrorPathForFailedJob_claimed:
  "setErrorPathForFailedJob pathJoin (Some j) = Some (claimed_errorPath pathJoin j)"
  by (cases "logPath j") (simp_all add: setErrorPathForFailedJob_def claimed_errorPath_def)

lemma forEachSetErrorPath_claimed:
  "forEachSetErrorPath pathJoin jobInfos = map (claimed_errorPath pathJoin) jobInfos"
  by (simp add: forEachSetErrorPath_def setErrorPathForFailedJob_claimed)

lemma setAllKeys_after_accepted:
  fixes scm :: "string \<Rightarrow> string \<Rightarrow> 's \<Rightarrow> (jserror + unit) \<times> 's"
  shows "manager_accepts stringify scm pre s = Some s1 \<Longrightarrow>
     (setAllKeys stringify scm (pre @ rest) s :: (jserror + unit) \<times> 's \<times> 'j effect list) =
       (case setAllKeys stringify scm rest s1 of
          (r, s2, es) \<Rightarrow> (r, s2, resolved_calls stringify pre @ es))"
proof (induction pre arbitrary: s)
  case Nil
  then show ?case by (simp add: resolved_calls_def)
next
  case (Cons kv pre)
  obtain key v where kv: "kv = (key, v)" by (cases kv)
  obtain o1 s' where step: "scm key (stringify v) s = (o1, s')" by (cases "scm key (stringify v) s")
  from Cons.prems kv step obtain u where o1: "o1 = Inr u" and acc: "manager_accepts stringify scm pre s' = Some s1"
    by (cases o1) auto
  from Cons.IH [OF acc] kv step o1 show ?case
    by (simp add: resolved_calls_def split: prod.splits)
qed

lemma manager_rejects_somewhere:
  fixes scm :: "string \<Rightarrow> string \<Rightarrow> 's \<Rightarrow> (jserror + unit) \<times> 's"
  shows "manager_accepts stringify scm metadata s = None \<Longrightarrow>
     \<exists>pre key v post s1 err s2.
        metadata = pre @ (key, v) # post \<and> manager_accepts stringify scm pre s = Some s1 \<and>
        scm key (stringify v) s1 = (Inl err, s2)"
proof (induction metadata arbitrary: s)
  case Nil
  then show ?case by simp
next
  case (Cons kv rest)
  obtain key v where kv: "kv = (key, v)" by (cases kv)
  obtain o1 s' where step: "scm key (stringify v) s = (o1, s')" by (cases "scm key (stringify v) s")
  show ?case
  proof (cases o1)
    case (Inl err)
    have "kv # rest = [] @ (key, v) # rest" using kv by simp
    moreover have "manager_accepts stringify scm [] s = Some s" by simp
    moreover have "scm key (stringify v) s = (Inl err, s')" using step Inl by simp
    ultimately show ?thesis by blast
  next
    case (Inr u)
    with Cons.prems kv step have "manager_accepts stringify scm rest s' = None" by simp
    from Cons.IH [OF this] obtain pre k2 v2 post s1 err s2 where
      d: "rest = pre @ (k2, v2) # post" and a: "manager_accepts stringify scm pre s' = Some s1"
      and r: "scm k2 (stringify v2) s1 = (Inl err, s2)" by blast
    have "kv # rest = (kv # pre) @ (k2, v2) # post" using d by simp
    moreover have "manager_accepts stringify scm (kv # pre) s = Some s1"
      using a kv step Inr by simp
    ultimately show ?thesis using r by blast
  qed
qed

section \<open>Claims about the REST handler\<close>

text \<open>
  C3 (the code departs from the claim on one route). The claim: for every failed
  orchestrator operation reached through a REST handler, the handler's error
  translation sets status 404 for an \<open>NNIError\<close> named \<open>NOT_FOUND\<close> and 500 for any
  other error, and sends the body \<open>{error: message}\<close>. The handler of
  \<open>DELETE /experiment\<close> installs no rejection handler: when \<open>stopExperimentTopHalf\<close>
  rejects, the run of the handler ends with the rejection, and neither a status nor a
  body is written to the response. (\<open>onRejected_manager_routes\<close> above is the
  translation on the routes that have one.)
\<close>

theorem stop_rejection_is_not_translated:
  assumes "stopExperimentTopHalf s = (Inl err, s')"
  shows "(stop stopExperimentTopHalf s :: 's \<times> 'j effect list) =
           (s', [Invoke StopExperimentTopHalf, Rejected StopExperimentTopHalf err])"
  using assms by (simp add: stop_def)

theorem stop_rejection_is_not_translated_witness:
  "(stop (\<lambda>s. (Inl \<lparr>isNNIError = True, name = NOT_FOUND, message = ''no experiment''\<rparr>, s)) (0::nat)
      :: nat \<times> 'j effect list) =
     (0, [Invoke StopExperimentTopHalf,
          Rejected StopExperimentTopHalf \<lparr>isNNIError = True, name = NOT_FOUND, message = ''no experiment''\<rparr>])"
  by (rule stop_rejection_is_not_translated) simp

text \<open>
  C4. In the handler of \<open>DELETE /experiment\<close>, once \<open>stopExperimentTopHalf\<close> has
  resolved, the run is: the top half is invoked and resolves, then the response is
  sent, then \<open>stopExperimentBottomHalf\<close> is invoked. The response is sent after the
  top half has completed and strictly before the bottom half is invoked.
\<close>

theorem stop_acknowledges_before_teardown:
  assumes "stopExperimentTopHalf s = (Inr u, s')"
  shows "(stop stopExperimentTopHalf s :: 's \<times> 'j effect list) =
           (s', [Invoke StopExperimentTopHalf, Resolved StopExperimentTopHalf,
                 ResSend NoBody, Invoke StopExperimentBottomHalf])"
  using assms by (simp add: stop_def)

theorem stop_acknowledges_before_teardown_witness:
  "(stop (\<lambda>s. (Inr (), Suc s)) (0::nat) :: nat \<times> 'j effect list) =
     (1, [Invoke StopExperimentTopHalf, Resolved StopExperimentTopHalf,
          ResSend NoBody, Invoke StopExperimentBottomHalf])"
  using stop_acknowledges_before_teardown [of "\<lambda>s. (Inr (), Suc s)" "0::nat" "()" 1]
  by simp

text \<open>
  C5. In the handler of \<open>PUT /experiment/cluster-metadata\<close>, if \<open>setClusterMetadata\<close>
  rejects for a key, the run of the handler ends there with the fatal error
  translation. The condition is on the manager, not on the handler: the manager
  accepted the keys \<open>pre\<close> in turn and then rejected \<open>key\<close> with \<open>err\<close>. The whole run of
  the handler is then determined: the calls for \<open>pre\<close>, each resolved; the call for
  \<open>key\<close>, rejected; the status, 404 for an \<open>NNIError\<close> named \<open>NOT_FOUND\<close> and 500
  otherwise; the body \<open>{error: message}\<close>; the error logged as fatal; the process
  exiting with code 1; and nothing after it, so that no key of \<open>post\<close> is set and no
  success response is sent. The error translated is \<open>NNIError.FromError(err)\<close>. The
  second part says that the condition covers every failure: whenever the manager does
  not accept all the keys, there is such a first rejected key. The third part is the
  other case: when the manager accepts all the keys the run is the calls, each
  resolved, and the empty success response, with no error translation.
\<close>

theorem setClusterMetaData_failure_is_fatal:
  fixes scm :: "string \<Rightarrow> string \<Rightarrow> 's \<Rightarrow> (jserror + unit) \<times> 's"
  shows
  "(metadata = pre @ (key, v) # post \<and> manager_accepts stringify scm pre s = Some s1 \<and>
    scm key (stringify v) s1 = (Inl err, s2) \<longrightarrow>
      (setClusterMetaData fromError stringify scm metadata s :: 's \<times> 'j effect list) =
        (s2, resolved_calls stringify pre @
             [Invoke (SetClusterMetadata key (stringify v)),
              Rejected (SetClusterMetadata key (stringify v)) err,
              ResStatus (if isNNIError (fromError err) \<and> name (fromError err) = NOT_FOUND
                         then 404 else 500),
              ResSend (ErrorBody (message (fromError err))),
              LogFatal (fromError err), ProcessExit 1])) \<and>
   (manager_accepts stringify scm metadata s = None \<longrightarrow>
      (\<exists>pre key v post s1 err s2.
         metadata = pre @ (key, v) # post \<and> manager_accepts stringify scm pre s = Some s1 \<and>
         scm key (stringify v) s1 = (Inl err, s2))) \<and>
   (manager_accepts stringify scm metadata s = Some s' \<longrightarrow>
      (setClusterMetaData fromError stringify scm metadata s :: 's \<times> 'j effect list) =
        (s', resolved_calls stringify metadata @ [ResSend NoBody]))"
proof (intro conjI impI)
  assume h: "metadata = pre @ (key, v) # post \<and> manager_accepts stringify scm pre s = Some s1 \<and>
             scm key (stringify v) s1 = (Inl err, s2)"
  then have "(setAllKeys stringify scm metadata s :: (jserror + unit) \<times> 's \<times> 'j effect list) =
               (Inl err, s2, resolved_calls stringify pre @
                  [Invoke (SetClusterMetadata key (stringify v)),
                   Rejected (SetClusterMetadata key (stringify v)) err])"
    using setAllKeys_after_accepted [of stringify scm pre s s1 "(key, v) # post"] by simp
  then show "(setClusterMetaData fromError stringify scm metadata s :: 's \<times> 'j effect list) =
        (s2, resolved_calls stringify pre @
             [Invoke (SetClusterMetadata key (stringify v)),
              Rejected (SetClusterMetadata key (stringify v)) err,
              ResStatus (if isNNIError (fromError err) \<and> name (fromError err) = NOT_FOUND
                         then 404 else 500),
              ResSend (ErrorBody (message (fromError err))),
              LogFatal (fromError err), ProcessExit 1])"
    by (simp add: setClusterMetaData_def handleError_def)
next
  assume "manager_accepts stringify scm metadata s = None"
  then show "\<exists>pre key v post s1 err s2.
         metadata = pre @ (key, v) # post \<and> manager_accepts stringify scm pre s = Some s1 \<and>
         scm key (stringify v) s1 = (Inl err, s2)"
    by (rule manager_rejects_somewhere)
next
  assume "manager_accepts stringify scm metadata s = Some s'"
  then have "(setAllKeys stringify scm metadata s :: (jserror + unit) \<times> 's \<times> 'j effect list) =
               (Inr (), s', resolved_calls stringify metadata)"
    using setAllKeys_after_accepted [of stringify scm metadata s s' "[]"] by simp
  then show "(setClusterMetaData fromError stringify scm metadata s :: 's \<times> 'j effect list) =
        (s', resolved_calls stringify metadata @ [ResSend NoBody])"
    by (simp add: setClusterMetaData_def)
qed

theorem setClusterMetaData_failure_is_fatal_witness:
  "manager_accepts (\<lambda>v. ''1'')
     (\<lambda>key v s. (if key = ''b''
                  then Inl \<lparr>isNNIError = False, name = ''Error'', message = ''rejected''\<rparr>
                  else Inr (), Suc s))
     [(''a'', JNull), (''b'', JNull), (''c'', JNull)] (0::nat) = None \<and>
   (setClusterMetaData id (\<lambda>v. ''1'')
      (\<lambda>key v s. (if key = ''b''
                   then Inl \<lparr>isNNIError = False, name = ''Error'', message = ''rejected''\<rparr>
                   else Inr (), Suc s))
      [(''a'', JNull), (''b'', JNull), (''c'', JNull)] (0::nat) :: nat \<times> 'j effect list) =
     (2, [Invoke (SetClusterMetadata ''a'' ''1''), Resolved (SetClusterMetadata ''a'' ''1''),
          Invoke (SetClusterMetadata ''b'' ''1''),
          Rejected (SetClusterMetadata ''b'' ''1'') \<lparr>isNNIError = False, name = ''Error'', message = ''rejected''\<rparr>,
          ResStatus 500, ResSend (ErrorBody ''rejected''),
          LogFatal \<lparr>isNNIError = False, name = ''Error'', message = ''rejected''\<rparr>, ProcessExit 1])"
proof -
  have acc: "manager_accepts (\<lambda>v. ''1'')
     (\<lambda>key v s. (if key = ''b''
                  then Inl \<lparr>isNNIError = False, name = ''Error'', message = ''rejected''\<rparr>
                  else Inr (), Suc s))
     [(''a'', JNull), (''b'', JNull), (''c'', JNull)] (0::nat) = None"
    by simp
  note t = setClusterMetaData_failure_is_fatal
    [where metadata = "[(''a'', JNull), (''b'', JNull), (''c'', JNull)]"
       and pre = "[(''a'', JNull)]" and key = "''b''" and v = JNull and post = "[(''c'', JNull)]"
       and stringify = "\<lambda>v. ''1''"
       and scm = "\<lambda>key v s. (if key = ''b''
                   then Inl \<lparr>isNNIError = False, name = ''Error'', message = ''rejected''\<rparr>
                   else Inr (), Suc s)"
       and s = "0::nat" and ?s1.0 = 1 and ?s2.0 = 2
       and err = "\<lparr>isNNIError = False, name = ''Error'', message = ''rejected''\<rparr>"
       and fromError = id and 'j = 'j, THEN conjunct1]
  have "(setClusterMetaData id (\<lambda>v. ''1'')
      (\<lambda>key v s. (if key = ''b''
                   then Inl \<lparr>isNNIError = False, name = ''Error'', message = ''rejected''\<rparr>
                   else Inr (), Suc s))
      [(''a'', JNull), (''b'', JNull), (''c'', JNull)] (0::nat) :: nat \<times> 'j effect list) =
     (2, [Invoke (SetClusterMetadata ''a'' ''1''), Resolved (SetClusterMetadata ''a'' ''1''),
          Invoke (SetClusterMetadata ''b'' ''1''),
          Rejected (SetClusterMetadata ''b'' ''1'') \<lparr>isNNIError = False, name = ''Error'', message = ''rejected''\<rparr>,
          ResStatus 500, ResSend (ErrorBody ''rejected''),
          LogFatal \<lparr>isNNIError = False, name = ''Error'', message = ''rejected''\<rparr>, ProcessExit 1])"
    using t by (simp add: resolved_calls_def)
  with acc show ?thesis by blast
qed

text \<open>
  C7. For every trial-job info returned by the handlers of \<open>GET /trial-jobs\<close> and
  \<open>GET /trial-jobs/:id\<close>: a job whose status is \<open>FAILED\<close> and whose \<open>logPath\<close> is defined
  is sent with \<open>stderrPath\<close> set to \<open>path.join(logPath, 'stderr')\<close>; a job that does not
  meet both conditions is sent unchanged; and in either case \<open>status\<close>, \<open>logPath\<close> and
  every other field but \<open>stderrPath\<close> are as the manager returned them.
\<close>

theorem setErrorPath_only_for_failed_jobs:
  fixes j :: "'a TrialJobInfo_scheme"
  shows
  "(mgrListTrialJobs q s = (Inr jobInfos, s') \<longrightarrow>
      listTrialJobs pathJoin mgrListTrialJobs q s =
        (s', [Invoke (ListTrialJobs q), Resolved (ListTrialJobs q),
              ResSend (JobListBody (map (claimed_errorPath pathJoin) jobInfos))])) \<and>
   (mgrGetTrialJob i t = (Inr jobDetail, t') \<longrightarrow>
      getTrialJob pathJoin mgrGetTrialJob i t =
        (t', [Invoke (GetTrialJob i), Resolved (GetTrialJob i),
              ResSend (JobBody (map_option (claimed_errorPath pathJoin) jobDetail))])) \<and>
   (status j = ''FAILED'' \<and> logPath j = Some p \<longrightarrow>
      claimed_errorPath pathJoin j = j\<lparr>stderrPath := Some (pathJoin p ''stderr'')\<rparr>) \<and>
   (\<not> (status j = ''FAILED'' \<and> logPath j \<noteq> None) \<longrightarrow> claimed_errorPath pathJoin j = j) \<and>
   status (claimed_errorPath pathJoin j) = status j \<and>
   logPath (claimed_errorPath pathJoin j) = logPath j \<and>
   TrialJobInfo.more (claimed_errorPath pathJoin j) = TrialJobInfo.more j"
proof -
  have a: "mgrListTrialJobs q s = (Inr jobInfos, s') \<longrightarrow>
      listTrialJobs pathJoin mgrListTrialJobs q s =
        (s', [Invoke (ListTrialJobs q), Resolved (ListTrialJobs q),
              ResSend (JobListBody (map (claimed_errorPath pathJoin) jobInfos))])"
    by (simp add: listTrialJobs_def forEachSetErrorPath_claimed)
  have b: "mgrGetTrialJob i t = (Inr jobDetail, t') \<longrightarrow>
      getTrialJob pathJoin mgrGetTrialJob i t =
        (t', [Invoke (GetTrialJob i), Resolved (GetTrialJob i),
              ResSend (JobBody (map_option (claimed_errorPath pathJoin) jobDetail))])"
    by (cases jobDetail)
       (simp_all add: getTrialJob_def setErrorPathForFailedJob_claimed,
        simp add: setErrorPathForFailedJob_def)
  have c: "status j = ''FAILED'' \<and> logPath j = Some p \<longrightarrow>
      claimed_errorPath pathJoin j = j\<lparr>stderrPath := Some (pathJoin p ''stderr'')\<rparr>"
    by (simp add: claimed_errorPath_def)
  have d: "\<not> (status j = ''FAILED'' \<and> logPath j \<noteq> None) \<longrightarrow> claimed_errorPath pathJoin j = j"
    by (cases "logPath j") (simp_all add: claimed_errorPath_def)
  have e: "status (claimed_errorPath pathJoin j) = status j \<and>
           logPath (claimed_errorPath pathJoin j) = logPath j \<and>
           TrialJobInfo.more (claimed_errorPath pathJoin j) = TrialJobInfo.more j"
    by (cases "logPath j") (simp_all add: claimed_errorPath_def)
  from a b c d e show ?thesis by blast
qed

theorem setErrorPath_only_for_failed_jobs_witness:
  "listTrialJobs (\<lambda>a b. a @ ''/'' @ b)
     (\<lambda>q s. (Inr [\<lparr>status = ''FAILED'', logPath = Some ''/tmp/t1'', stderrPath = None\<rparr>,
                     \<lparr>status = ''FAILED'', logPath = None, stderrPath = None\<rparr>,
                     \<lparr>status = ''SUCCEEDED'', logPath = Some ''/tmp/t3'', stderrPath = None\<rparr>], Suc s))
     JUndefined (0::nat) =
     (1, [Invoke (ListTrialJobs JUndefined), Resolved (ListTrialJobs JUndefined),
          ResSend (JobListBody
            [\<lparr>status = ''FAILED'', logPath = Some ''/tmp/t1'', stderrPath = Some ''/tmp/t1/stderr''\<rparr>,
             \<lparr>status = ''FAILED'', logPath = None, stderrPath = None\<rparr>,
             \<lparr>status = ''SUCCEEDED'', logPath = Some ''/tmp/t3'', stderrPath = None\<rparr>])]) \<and>
   getTrialJob (\<lambda>a b. a @ ''/'' @ b)
     (\<lambda>i s. (Inr (Some \<lparr>status = ''FAILED'', logPath = Some ''/tmp/t1'', stderrPath = None\<rparr>), Suc s))
     ''t1'' (0::nat) =
     (1, [Invoke (GetTrialJob ''t1''), Resolved (GetTrialJob ''t1''),
          ResSend (JobBody
            (Some \<lparr>status = ''FAILED'', logPath = Some ''/tmp/t1'', stderrPath = Some ''/tmp/t1/stderr''\<rparr>))])"
  using setErrorPath_only_for_failed_jobs
    [where mgrListTrialJobs =
        "\<lambda>q s. (Inr [\<lparr>status = ''FAILED'', logPath = Some ''/tmp/t1'', stderrPath = None\<rparr>,
                       \<lparr>status = ''FAILED'', logPath = None, stderrPath = None\<rparr>,
                       \<lparr>status = ''SUCCEEDED'', logPath = Some ''/tmp/t3'', stderrPath = None\<rparr>], Suc s)"
      and q = JUndefined and s = "0::nat" and s' = 1
      and jobInfos = "[\<lparr>status = ''FAILED'', logPath = Some ''/tmp/t1'', stderrPath = None\<rparr>,
                       \<lparr>status = ''FAILED'', logPath = None, stderrPath = None\<rparr>,
                       \<lparr>status = ''SUCCEEDED'', logPath = Some ''/tmp/t3'', stderrPath = None\<rparr>]"
      and pathJoin = "\<lambda>a b. a @ ''/'' @ b"
      and mgrGetTrialJob =
        "\<lambda>i s. (Inr (Some \<lparr>status = ''FAILED'', logPath = Some ''/tmp/t1'', stderrPath = None\<rparr>), Suc s)"
      and i = "''t1''" and t = "0::nat" and t' = 1
      and jobDetail = "Some \<lparr>status = ''FAILED'', logPath = Some ''/tmp/t1'', stderrPath = None\<rparr>"
      and j = "\<lparr>status = ''FAILED'', logPath = Some ''/tmp/t1'', stderrPath = None\<rparr>"
      and p = "''/tmp/t1''"]
  by (simp add: claimed_errorPath_def)

text \<open>
  C8. When \<open>addCustomizedTrialJob\<close> resolves with a sequence id, the handler of
  \<open>POST /trial-jobs\<close> has called it once, directly on the manager, with the request
  body (serialised by \<open>JSON.stringify\<close>) as the trial parameters, and sends the body
  \<open>{sequenceId}\<close> with the id the call produced.
\<close>

theorem addTrialJob_returns_sequenceId:
  assumes "addCustomizedTrialJob (stringify reqBody) s = (Inr sequenceId, s')"
  shows "(addTrialJob stringify addCustomizedTrialJob reqBody s :: 's \<times> 'j effect list) =
           (s', [Invoke (AddCustomizedTrialJob (stringify reqBody)),
                 Resolved (AddCustomizedTrialJob (stringify reqBody)),
                 ResSend (SequenceIdBody sequenceId)])"
  using assms by (simp add: addTrialJob_def)

theorem addTrialJob_returns_sequenceId_witness:
  "(addTrialJob (\<lambda>v. ''{}'') (\<lambda>params n. (Inr n, Suc n)) (JObj []) (7::nat) :: nat \<times> 'j effect list) =
     (8, [Invoke (AddCustomizedTrialJob ''{}''), Resolved (AddCustomizedTrialJob ''{}''),
          ResSend (SequenceIdBody 7)])"
  by (rule addTrialJob_returns_sequenceId) simp

section \<open>Claims about the Hyperband buckets\<close>

text \<open>
  C6, as stated, does not hold: with \<open>R = 81\<close> and \<open>eta = 3\<close> the closed-form
  \<open>n_0(s) = ceil((s_max+1)/(s+1) * eta^s)\<close> gives 34, 15 and 8 for \<open>s = 3, 2, 1\<close>, where
  the documented table has 27, 9 and 6.
\<close>

theorem closed_form_differs_from_documented_table:
  "buckets 81 3 \<noteq> documented_table_row_0"
  by (simp add: documented_table_row_0_def) code_simp

text \<open>
  C6, amended. With \<open>R = 81\<close> and \<open>eta = 3\<close>, \<open>s_max = 4\<close> and the first-rung pairs the
  closed forms give for \<open>s = 4\<close> down to \<open>0\<close> are (81,1), (34,3), (15,9), (8,27), (5,81).
  They agree with the documented table in \<open>r_0\<close> for every bucket, and in \<open>n_0\<close> for
  \<open>s = 4\<close> and \<open>s = 0\<close>.
\<close>

theorem closed_form_buckets_81_3:
  "s_max 81 3 = 4 \<and>
   buckets 81 3 = [(4, 81, 1), (3, 34, 3), (2, 15, 9), (1, 8, 27), (0, 5, 81)] \<and>
   map (\<lambda>(s, n, r). (s, r)) (buckets 81 3) = map (\<lambda>(s, n, r). (s, r)) documented_table_row_0 \<and>
   filter (\<lambda>(s, n, r). s = 4 \<or> s = 0) (buckets 81 3) =
     filter (\<lambda>(s, n, r). s = 4 \<or> s = 0) documented_table_row_0"
proof -
  have s: "s_max 81 3 = 4" by code_simp
  have b: "buckets 81 3 = [(4, 81, 1), (3, 34, 3), (2, 15, 9), (1, 8, 27), (0, 5, 81)]"
    by code_simp
  show ?thesis unfolding b documented_table_row_0_def using s by simp
qed

end
